
theory Spec2Isabelle
  imports Main "HOL-Library.Sublist"
begin

section \<open>Go values: panics, errors, strings\<close>

text \<open>
  A Go call either returns or panics (a failed bounds check is a run-time panic that
  nothing in \<^verbatim>\<open>setup.go\<close> recovers). Returned \<^verbatim>\<open>error\<close> values are ordinary data.
\<close>

datatype 'a go = Panic | Ret 'a

datatype error =
    ArgErr string              \<comment> \<open>\<^verbatim>\<open>c.ArgErr()\<close>, with the token the dispenser is at\<close>
  | HookTypeErr string         \<comment> \<open>\<^verbatim>\<open>c.Errf("invalid hook type %v", t)\<close>\<close>
  | InvalidGitURL string       \<comment> \<open>\<^verbatim>\<open>fmt.Errorf("invalid git url %s", repoURL)\<close>\<close>
  | WindowsUnsupported         \<comment> \<open>\<^verbatim>\<open>"private repository not yet supported on Windows"\<close>\<close>
  | URLParseErr string         \<comment> \<open>an error of \<^verbatim>\<open>url.Parse\<close>\<close>
  | ExternalErr string         \<comment> \<open>an error of \<^verbatim>\<open>Init\<close>, \<^verbatim>\<open>Prepare\<close> or \<^verbatim>\<open>Pull\<close>\<close>

subsection \<open>Package \<^verbatim>\<open>strings\<close> and slicing\<close>

definition HasPrefix :: "string \<Rightarrow> string \<Rightarrow> bool" where
  "HasPrefix s p = prefix p s"

definition HasSuffix :: "string \<Rightarrow> string \<Rightarrow> bool" where
  "HasSuffix s p = suffix p s"

text \<open>\<^verbatim>\<open>strings.Index(s, sep)\<close>: the first position of \<open>sep\<close> in \<open>s\<close>, or \<open>-1\<close>.\<close>

fun Index :: "string \<Rightarrow> string \<Rightarrow> int" where
  "Index [] sep = (if sep = [] then 0 else - 1)"
| "Index (c # cs) sep =
     (if prefix sep (c # cs) then 0
      else (let r = Index cs sep in if r < 0 then - 1 else r + 1))"

text \<open>\<^verbatim>\<open>strings.LastIndex(s, sep)\<close>: the last position of \<open>sep\<close> in \<open>s\<close>, or \<open>-1\<close>.\<close>

fun LastIndex :: "string \<Rightarrow> string \<Rightarrow> int" where
  "LastIndex [] sep = (if sep = [] then 0 else - 1)"
| "LastIndex (c # cs) sep =
     (let r = LastIndex cs sep in
      if 0 \<le> r then r + 1 else if prefix sep (c # cs) then 0 else - 1)"

text \<open>\<^verbatim>\<open>strings.Split(s, sep)\<close> for a separator of one byte, as \<^verbatim>\<open>setup.go\<close> uses it.\<close>

fun Split1 :: "char \<Rightarrow> string \<Rightarrow> string \<Rightarrow> string list" where
  "Split1 sep acc [] = [acc]"
| "Split1 sep acc (c # cs) =
     (if c = sep then acc # Split1 sep [] cs else Split1 sep (acc @ [c]) cs)"

definition Split :: "string \<Rightarrow> char \<Rightarrow> string list" where
  "Split s sep = Split1 sep [] s"

text \<open>
  \<^verbatim>\<open>strings.TrimSpace\<close>. Strings are byte lists; the white space removed here is the
  ASCII white space (tab, line feed, vertical tab, form feed, carriage return, space).
\<close>

definition isSpace :: "char \<Rightarrow> bool" where
  "isSpace c = (c \<in> set [CHR 0x09, CHR 0x0A, CHR 0x0B, CHR 0x0C, CHR 0x0D, CHR '' ''])"

definition TrimSpace :: "string \<Rightarrow> string" where
  "TrimSpace s = rev (dropWhile isSpace (rev (dropWhile isSpace s)))"

text \<open>Slice and index expressions check their bounds and panic outside them.\<close>

definition slice_from :: "string \<Rightarrow> int \<Rightarrow> string go" where
  \<comment> \<open>\<^verbatim>\<open>s[a:]\<close>\<close>
  "slice_from s a =
     (if 0 \<le> a \<and> a \<le> int (length s) then Ret (drop (nat a) s) else Panic)"

definition slice_to :: "string \<Rightarrow> int \<Rightarrow> string go" where
  \<comment> \<open>\<^verbatim>\<open>s[:b]\<close>\<close>
  "slice_to s b =
     (if 0 \<le> b \<and> b \<le> int (length s) then Ret (take (nat b) s) else Panic)"

definition index_at :: "'a list \<Rightarrow> int \<Rightarrow> 'a go" where
  \<comment> \<open>\<^verbatim>\<open>xs[i]\<close>\<close>
  "index_at xs i =
     (if 0 \<le> i \<and> i < int (length xs) then Ret (xs ! nat i) else Panic)"

section \<open>The library function \<^verbatim>\<open>url.Parse\<close>\<close>

text \<open>
  \<^verbatim>\<open>net/url\<close> belongs to the Go standard library, not to this repository. The model
  below follows the parser of the Go releases the plugin was written against: cut the
  fragment, read a scheme, cut the query, treat a rootless path after a scheme as opaque,
  read an authority after \<^verbatim>\<open>//\<close> (user information before the last \<^verbatim>\<open>@\<close>), and
  percent-decode the path. Host-syntax validation (bracketed IP literals, ports) is not
  modelled. In these releases an address without scheme is a path whose first segment may
  contain a colon, so that \<^verbatim>\<open>git@host:path\<close> parses to a record with no host and that
  path; this is what lines 216 to 224 of \<^verbatim>\<open>setup.go\<close> rely on. (Later releases reject such
  an address.) The general theorems about the normalizers are stated over the parsed
  record; of this model they use only that a record with user information has an empty path
  or one that starts with a slash. Otherwise the model is evaluated on concrete addresses.
\<close>

record Userinfo =
  username :: string
  password :: "string option"

record url_URL =
  url_Scheme :: string
  url_Opaque :: string
  url_User :: "Userinfo option"
  url_Host :: string
  url_Path :: string
  url_RawQuery :: string
  url_Fragment :: string

definition empty_URL :: url_URL where
  "empty_URL = \<lparr>url_Scheme = [], url_Opaque = [], url_User = None, url_Host = [],
                 url_Path = [], url_RawQuery = [], url_Fragment = []\<rparr>"

definition isAlpha :: "char \<Rightarrow> bool" where
  "isAlpha c = (let n = (of_char c :: nat) in (97 \<le> n \<and> n \<le> 122) \<or> (65 \<le> n \<and> n \<le> 90))"

definition isDigit :: "char \<Rightarrow> bool" where
  "isDigit c = (let n = (of_char c :: nat) in 48 \<le> n \<and> n \<le> 57)"

definition ishex :: "char \<Rightarrow> bool" where
  "ishex c = (let n = (of_char c :: nat) in
     (48 \<le> n \<and> n \<le> 57) \<or> (97 \<le> n \<and> n \<le> 102) \<or> (65 \<le> n \<and> n \<le> 70))"

definition unhex :: "char \<Rightarrow> nat" where
  "unhex c = (let n = (of_char c :: nat) in
     if 48 \<le> n \<and> n \<le> 57 then n - 48
     else if 97 \<le> n \<and> n \<le> 102 then n - 97 + 10
     else if 65 \<le> n \<and> n \<le> 70 then n - 65 + 10
     else 0)"

definition toLower :: "char \<Rightarrow> char" where
  "toLower c = (let n = (of_char c :: nat) in
     if 65 \<le> n \<and> n \<le> 90 then char_of (n + 32) else c)"

fun unescape :: "string \<Rightarrow> error + string" where
  "unescape [] = Inr []"
| "unescape (c # cs) =
     (if c = CHR ''%'' then
        (case cs of
           a # b # rest \<Rightarrow>
             if ishex a \<and> ishex b then
               (case unescape rest of
                  Inl e \<Rightarrow> Inl e
                | Inr t \<Rightarrow> Inr (char_of (unhex a * 16 + unhex b) # t))
             else Inl (URLParseErr (take 3 (c # cs)))
         | _ \<Rightarrow> Inl (URLParseErr (take 3 (c # cs))))
      else (case unescape cs of Inl e \<Rightarrow> Inl e | Inr t \<Rightarrow> Inr (c # t)))"

text \<open>\<^verbatim>\<open>split(s, c, cutc)\<close> of \<^verbatim>\<open>net/url\<close>: cut \<open>s\<close> at the first \<open>c\<close>.\<close>

definition url_split :: "string \<Rightarrow> string \<Rightarrow> bool \<Rightarrow> string \<times> string" where
  "url_split s c cutc =
     (let i = Index s c in
      if i < 0 then (s, [])
      else if cutc then (take (nat i) s, drop (nat i + length c) s)
      else (take (nat i) s, drop (nat i) s))"

fun getscheme_loop :: "string \<Rightarrow> string \<Rightarrow> string \<Rightarrow> error + (string \<times> string)" where
  "getscheme_loop rawurl seen [] = Inr ([], rawurl)"
| "getscheme_loop rawurl seen (c # cs) =
     (if isAlpha c then getscheme_loop rawurl (seen @ [c]) cs
      else if isDigit c \<or> c = CHR ''+'' \<or> c = CHR ''-'' \<or> c = CHR ''.'' then
        (if seen = [] then Inr ([], rawurl) else getscheme_loop rawurl (seen @ [c]) cs)
      else if c = CHR '':'' then
        (if seen = [] then Inl (URLParseErr ''missing protocol scheme'')
         else Inr (seen, cs))
      else Inr ([], rawurl))"

definition getscheme :: "string \<Rightarrow> error + (string \<times> string)" where
  "getscheme rawurl = getscheme_loop rawurl [] rawurl"

definition parseAuthority :: "string \<Rightarrow> error + (Userinfo option \<times> string)" where
  "parseAuthority authority =
     (let i = LastIndex authority ''@'' in
      if i < 0 then Inr (None, authority)
      else
        (let userinfo = take (nat i) authority; host = drop (nat i + 1) authority in
         if Index userinfo '':'' < 0 then
           (case unescape userinfo of
              Inl e \<Rightarrow> Inl e
            | Inr u \<Rightarrow> Inr (Some \<lparr>username = u, password = None\<rparr>, host))
         else
           (let (un, pw) = url_split userinfo '':'' True in
            case unescape un of
              Inl e \<Rightarrow> Inl e
            | Inr u \<Rightarrow>
                (case unescape pw of
                   Inl e \<Rightarrow> Inl e
                 | Inr p \<Rightarrow> Inr (Some \<lparr>username = u, password = Some p\<rparr>, host)))))"

definition url_parse :: "string \<Rightarrow> error + url_URL" where
  \<comment> \<open>\<^verbatim>\<open>parse(rawurl, viaRequest = false)\<close>\<close>
  "url_parse rawurl =
     (if rawurl = ''*'' then Inr (empty_URL\<lparr>url_Path := ''*''\<rparr>)
      else
        (case getscheme rawurl of
           Inl e \<Rightarrow> Inl e
         | Inr (scheme, rest0) \<Rightarrow>
             (let u = empty_URL\<lparr>url_Scheme := map toLower scheme\<rparr>;
                  (rest, query) = url_split rest0 ''?'' True;
                  u = u\<lparr>url_RawQuery := query\<rparr>
              in
              if \<not> HasPrefix rest ''/'' \<and> url_Scheme u \<noteq> [] then Inr (u\<lparr>url_Opaque := rest\<rparr>)
              else if (url_Scheme u \<noteq> [] \<or> \<not> HasPrefix rest ''///'') \<and> HasPrefix rest ''//'' then
                (let (authority, rest') = url_split (drop 2 rest) ''/'' False in
                 case parseAuthority authority of
                   Inl e \<Rightarrow> Inl e
                 | Inr (usr, host) \<Rightarrow>
                     (case unescape rest' of
                        Inl e \<Rightarrow> Inl e
                      | Inr p \<Rightarrow> Inr (u\<lparr>url_User := usr, url_Host := host, url_Path := p\<rparr>)))
              else
                (case unescape rest of
                   Inl e \<Rightarrow> Inl e
                 | Inr p \<Rightarrow> Inr (u\<lparr>url_Path := p\<rparr>)))))"

definition url_Parse :: "string \<Rightarrow> error + url_URL" where
  \<comment> \<open>\<^verbatim>\<open>url.Parse(rawurl)\<close>\<close>
  "url_Parse rawurl =
     (let (u, frag) = url_split rawurl ''#'' True in
      case url_parse u of
        Inl e \<Rightarrow> Inl e
      | Inr url \<Rightarrow>
          if frag = [] then Inr url
          else (case unescape frag of
                  Inl e \<Rightarrow> Inl e
                | Inr f \<Rightarrow> Inr (url\<lparr>url_Fragment := f\<rparr>)))"

section \<open>The URL normalizers of \<^verbatim>\<open>setup.go\<close>\<close>

text \<open>
  Both functions return Go's triple \<^verbatim>\<open>(string, string, error)\<close>; a \<open>None\<close> error
  is \<^verbatim>\<open>nil\<close>.
\<close>

type_synonym sanitized = "(string \<times> string \<times> error option) go"

definition add_git_suffix :: "string \<Rightarrow> string" where
  \<comment> \<open>\<^verbatim>\<open>if !strings.HasSuffix(repoURL, ".git") { repoURL += ".git" }\<close>\<close>
  "add_git_suffix repoURL = (if \<not> HasSuffix repoURL ''.git'' then repoURL @ ''.git'' else repoURL)"

text \<open>
  Lines 216 to 224: the rewriting of an SCP-style address inside the parsed record. The
  result is \<open>Inl\<close> for the early error return.
\<close>

definition scp_rewrite :: "string \<Rightarrow> url_URL \<Rightarrow> (error + url_URL) go" where
  "scp_rewrite repoURL url =
     (if url_Host url = [] \<and> HasPrefix (url_Path url) ''git@'' then
        (case slice_from (url_Path url) (int (length ''git@'')) of
           Panic \<Rightarrow> Panic
         | Ret p \<Rightarrow>
             (let i = Index p '':'' in
              if i < 0 then Ret (Inl (InvalidGitURL repoURL))
              else
                (case slice_to p i of
                   Panic \<Rightarrow> Panic
                 | Ret h \<Rightarrow>
                     (case slice_from p (i + 1) of
                        Panic \<Rightarrow> Panic
                      | Ret q \<Rightarrow> Ret (Inr (url\<lparr>url_Host := h, url_Path := ''/'' @ q\<rparr>))))))
      else Ret (Inr url))"

text \<open>Lines 226 to 236: the address that is put together from the record.\<close>

definition https_form :: "url_URL \<Rightarrow> string go" where
  "https_form url =
     (case url_User url of
        Some ui \<Rightarrow> Ret (''https://'' @ username ui @ ''@'' @ url_Host url @ url_Path url)
      | None \<Rightarrow>
          if url_Host url = ''bitbucket.org'' then
            (let segments = Split (url_Path url) CHR ''/'' in
             case index_at segments 1 of
               Panic \<Rightarrow> Panic
             | Ret seg \<Rightarrow> Ret (''https://'' @ seg @ ''@'' @ url_Host url @ url_Path url))
          else Ret (''https://'' @ url_Host url @ url_Path url))"

definition sanitizeHTTP :: "string \<Rightarrow> sanitized" where
  "sanitizeHTTP repoURL =
     (case url_Parse repoURL of
        Inl err \<Rightarrow> Ret ([], [], Some err)
      | Inr url0 \<Rightarrow>
          (case scp_rewrite repoURL url0 of
             Panic \<Rightarrow> Panic
           | Ret (Inl err) \<Rightarrow> Ret ([], [], Some err)
           | Ret (Inr url) \<Rightarrow>
               (case https_form url of
                  Panic \<Rightarrow> Panic
                | Ret r \<Rightarrow> Ret (add_git_suffix r, url_Host url, None))))"

definition sanitizeGit :: "string \<Rightarrow> sanitized" where
  "sanitizeGit repoURL0 =
     (let repoURL = TrimSpace repoURL0;
          converted =
            (if \<not> HasPrefix repoURL ''git@'' \<or> Index repoURL '':'' < int (length ''git@a:'') then
               (case url_Parse repoURL of
                  Inr url \<Rightarrow>
                    if HasPrefix (url_Scheme url) ''http'' then
                      (case slice_from (url_Path url) 1 of
                         Panic \<Rightarrow> Panic
                       | Ret p \<Rightarrow> Ret (Inr (''git@'' @ url_Host url @ '':'' @ p)))
                    else Ret (Inl (InvalidGitURL repoURL))
                | Inl _ \<Rightarrow> Ret (Inl (InvalidGitURL repoURL)))
             else Ret (Inr repoURL))
      in
      case converted of
        Panic \<Rightarrow> Panic
      | Ret (Inl err) \<Rightarrow> Ret ([], [], Some err)
      | Ret (Inr repoURL') \<Rightarrow>
          (case slice_from repoURL' (int (length ''git@'')) of
             Panic \<Rightarrow> Panic
           | Ret hostURL \<Rightarrow>
               (let i = Index hostURL '':'' in
                case slice_to hostURL i of
                  Panic \<Rightarrow> Panic
                | Ret host \<Rightarrow> Ret (add_git_suffix repoURL', host, None))))"

section \<open>Repository descriptors and the collaborators of \<^verbatim>\<open>setup.go\<close>\<close>

text \<open>
  \<^verbatim>\<open>Repo\<close>, \<^verbatim>\<open>HookConfig\<close> and \<^verbatim>\<open>Then\<close> are declared in other files of the package;
  the fields are the ones \<^verbatim>\<open>setup.go\<close> reads and writes. \<^verbatim>\<open>Interval\<close> is a
  \<^verbatim>\<open>time.Duration\<close>: a signed 64-bit count of nanoseconds.
\<close>

datatype ThenAction =
    NewThen string "string list"
  | NewLongThen string "string list"

record HookConfig =
  Url :: string
  Secret :: string
  Type :: string

record Repo =
  URL :: string
  Path :: string
  Host :: string
  Branch :: string
  KeyPath :: string
  Interval :: int
  Then :: "ThenAction list"
  Hook :: HookConfig

definition Second :: int where
  "Second = 1000000000"

definition Hour :: int where
  "Hour = 3600 * Second"

definition DefaultInterval :: int where
  "DefaultInterval = Hour * 1"

definition wrap64 :: "int \<Rightarrow> int" where
  \<comment> \<open>the value of an \<^verbatim>\<open>int64\<close> computation: two's complement wrap-around\<close>
  "wrap64 x = (x + 2 ^ 63) mod 2 ^ 64 - 2 ^ 63"

text \<open>
  \<^verbatim>\<open>strconv.Atoi\<close> (standard library) on a platform whose \<^verbatim>\<open>int\<close> has 64 bits: an
  optional sign and decimal digits. A syntax error gives 0; a value out of range gives the
  nearest bound; both come with an error, which line 123 discards.
\<close>

definition digits_value :: "string \<Rightarrow> int" where
  "digits_value ds = foldl (\<lambda>a c. 10 * a + (int (of_char c) - 48)) 0 ds"

definition Atoi :: "string \<Rightarrow> int \<times> bool" where
  "Atoi s =
     (let (neg, ds) =
        (case s of
           [] \<Rightarrow> (False, [])
         | c # r \<Rightarrow> if c = CHR ''+'' then (False, r)
                    else if c = CHR ''-'' then (True, r) else (False, s))
      in
      if ds = [] \<or> \<not> list_all isDigit ds then (0, True)
      else
        (let n = digits_value ds in
         if \<not> neg \<and> 2 ^ 63 \<le> n then (2 ^ 63 - 1, True)
         else if neg \<and> 2 ^ 63 < n then (- (2 ^ 63), True)
         else (if neg then - n else n, False)))"

text \<open>
  What the program does to the outside is recorded as a trace of events; what the outside
  answers is a parameter that may depend on everything done so far.
\<close>

datatype event = EvInit | EvPrepare Repo | EvStart Repo | EvPull Repo

type_synonym world = "event list"

record env =
  GOOS :: string                                         \<comment> \<open>\<^verbatim>\<open>runtime.GOOS\<close>\<close>
  Separator :: string                                    \<comment> \<open>\<^verbatim>\<open>filepath.Separator\<close>\<close>
  Clean :: "string \<Rightarrow> string"                             \<comment> \<open>\<^verbatim>\<open>filepath.Clean\<close>\<close>
  handlers :: "string list"                              \<comment> \<open>keys of the \<^verbatim>\<open>handlers\<close> table\<close>
  Init_result :: "world \<Rightarrow> error option"
  Prepare_result :: "world \<Rightarrow> Repo \<Rightarrow> error option"
  Pull_result :: "world \<Rightarrow> Repo \<Rightarrow> error option"

definition Init :: "env \<Rightarrow> world \<Rightarrow> error option \<times> world" where
  \<comment> \<open>Modelled from the spec: \<^verbatim>\<open>Init() -> error\<close>, the global environment validation,
      is declared in another file of the package.\<close>
  "Init E w = (Init_result E w, w @ [EvInit])"

definition Prepare :: "env \<Rightarrow> Repo \<Rightarrow> world \<Rightarrow> error option \<times> world" where
  \<comment> \<open>Modelled from the spec: \<^verbatim>\<open>Prepare(descriptor) -> error\<close> makes the local path
      ready; it is declared in another file of the package.\<close>
  "Prepare E repo w = (Prepare_result E w repo, w @ [EvPrepare repo])"

definition Pull :: "env \<Rightarrow> Repo \<Rightarrow> world \<Rightarrow> error option \<times> world" where
  \<comment> \<open>Modelled from the spec: \<^verbatim>\<open>Pull(descriptor) -> error\<close> performs one
      synchronization; it is declared in another file of the package.\<close>
  "Pull E repo w = (Pull_result E w repo, w @ [EvPull repo])"

definition Start :: "env \<Rightarrow> Repo \<Rightarrow> world \<Rightarrow> world" where
  \<comment> \<open>Modelled from the spec: \<^verbatim>\<open>Start(descriptor)\<close> begins the recurring polling loop,
      fire-and-forget; it is declared in another file of the package.\<close>
  "Start E repo w = w @ [EvStart repo]"

section \<open>The controller of the hosting server\<close>

text \<open>
  \<^verbatim>\<open>setup.Controller\<close> belongs to the hosting server. It embeds the token dispenser
  (tokens with their line, a cursor that starts at \<open>-1\<close>, a nesting depth) and the
  configuration being built, of which \<^verbatim>\<open>setup.go\<close> uses \<^verbatim>\<open>Root\<close> and
  \<^verbatim>\<open>Startup\<close>. \<open>once_done\<close> is the state of the guard behind
  \<^verbatim>\<open>OncePerServerBlock\<close>.
\<close>

record token =
  tok_text :: string
  tok_line :: nat

type_synonym startup = "world \<Rightarrow> error option \<times> world"

record Controller =
  tokens :: "token list"
  cursor :: int
  nesting :: nat
  Root :: string
  Startup :: "startup list"
  once_done :: bool

definition Next :: "Controller \<Rightarrow> bool \<times> Controller" where
  "Next c =
     (if cursor c < int (length (tokens c)) - 1 then (True, c\<lparr>cursor := cursor c + 1\<rparr>)
      else (False, c))"

definition Val :: "Controller \<Rightarrow> string" where
  "Val c =
     (if cursor c < 0 \<or> int (length (tokens c)) \<le> cursor c then []
      else tok_text (tokens c ! nat (cursor c)))"

definition NextArg :: "Controller \<Rightarrow> bool \<times> Controller" where
  "NextArg c =
     (if cursor c < 0 then (True, c\<lparr>cursor := cursor c + 1\<rparr>)
      else if int (length (tokens c)) \<le> cursor c then (False, c)
      else if cursor c < int (length (tokens c)) - 1 \<and>
              tok_line (tokens c ! nat (cursor c)) = tok_line (tokens c ! nat (cursor c + 1))
           then (True, c\<lparr>cursor := cursor c + 1\<rparr>)
      else (False, c))"

definition NextBlock :: "Controller \<Rightarrow> bool \<times> Controller" where
  "NextBlock c =
     (if 0 < nesting c then
        (let c1 = snd (Next c) in
         if Val c1 = ''}'' then (False, c1\<lparr>nesting := nesting c1 - 1\<rparr>) else (True, c1))
      else
        (case NextArg c of
           (False, c1) \<Rightarrow> (False, c1)
         | (True, c1) \<Rightarrow>
             if Val c1 \<noteq> ''{'' then (False, c1\<lparr>cursor := cursor c1 - 1\<rparr>)
             else
               (let c2 = snd (Next c1) in
                if Val c2 = ''}'' then (False, c2)
                else (True, c2\<lparr>nesting := nesting c2 + 1\<rparr>))))"

definition ArgErr_at :: "Controller \<Rightarrow> error" where
  \<comment> \<open>\<^verbatim>\<open>c.ArgErr()\<close>\<close>
  "ArgErr_at c = ArgErr (Val c)"

function RemainingArgs_loop :: "Controller \<Rightarrow> string list \<Rightarrow> string list \<times> Controller" where
  "RemainingArgs_loop c args =
     (case NextArg c of
        (False, c1) \<Rightarrow> (args, c1)
      | (True, c1) \<Rightarrow>
          if Val c1 = ''{'' then (args, c1\<lparr>cursor := cursor c1 - 1\<rparr>)
          else RemainingArgs_loop c1 (args @ [Val c1]))"
  by pat_completeness auto
termination
  by (relation "measure (\<lambda>(c, args). nat (int (length (tokens c)) - cursor c))")
     (auto simp: NextArg_def split: if_splits)

definition RemainingArgs :: "Controller \<Rightarrow> string list \<times> Controller" where
  "RemainingArgs c = RemainingArgs_loop c []"

text \<open>
  What every dispenser call preserves: the tokens and the configuration fields. Only the
  cursor and the nesting depth move.
\<close>

definition frame :: "Controller \<Rightarrow> Controller \<Rightarrow> bool" where
  "frame c c' \<longleftrightarrow>
     tokens c' = tokens c \<and> Root c' = Root c \<and> Startup c' = Startup c \<and>
     once_done c' = once_done c"

lemma frame_refl: "frame c c"
  by (simp add: frame_def)

lemma frame_trans: "frame a b \<Longrightarrow> frame b c \<Longrightarrow> frame a c"
  by (simp add: frame_def)

lemma NextArg_True:
  "NextArg c = (True, c1) \<Longrightarrow>
     c1 = c\<lparr>cursor := cursor c + 1\<rparr> \<and> cursor c < int (length (tokens c))"
  by (auto simp: NextArg_def split: if_splits)

lemma NextArg_False: "NextArg c = (False, c1) \<Longrightarrow> c1 = c"
  by (auto simp: NextArg_def split: if_splits)

lemma NextArg_frame: "NextArg c = (b, c1) \<Longrightarrow> frame c c1 \<and> cursor c \<le> cursor c1"
  by (cases b) (auto simp: frame_def dest: NextArg_True NextArg_False)

lemma Next_frame: "frame c (snd (Next c)) \<and> cursor c \<le> cursor (snd (Next c))"
  by (simp add: Next_def frame_def)

lemma Next_True:
  "Next c = (True, c1) \<Longrightarrow>
     c1 = c\<lparr>cursor := cursor c + 1\<rparr> \<and> cursor c < int (length (tokens c)) - 1"
  by (auto simp: Next_def split: if_splits)

lemma Next_False: "Next c = (False, c1) \<Longrightarrow> c1 = c"
  by (auto simp: Next_def split: if_splits)

lemma NextBlock_frame: "NextBlock c = (b, c1) \<Longrightarrow> frame c c1 \<and> cursor c \<le> cursor c1"
proof -
  assume nb: "NextBlock c = (b, c1)"
  show ?thesis
  proof (cases "0 < nesting c")
    case True
    with nb Next_frame [of c] show ?thesis
      by (auto simp: NextBlock_def Let_def frame_def split: if_splits)
  next
    case False
    obtain b' c' where na: "NextArg c = (b', c')"
      by (cases "NextArg c")
    show ?thesis
    proof (cases b')
      case False
      with nb na \<open>\<not> 0 < nesting c\<close> show ?thesis
        by (auto simp: NextBlock_def frame_def dest: NextArg_False)
    next
      case True
      with na have c': "c' = c\<lparr>cursor := cursor c + 1\<rparr>"
        by (auto dest: NextArg_True)
      from nb na True \<open>\<not> 0 < nesting c\<close> Next_frame [of c'] show ?thesis
        by (auto simp: NextBlock_def Let_def frame_def c' split: if_splits)
    qed
  qed
qed

lemma RemainingArgs_loop_frame:
  "RemainingArgs_loop c args = (a, c') \<Longrightarrow>
     frame c c' \<and> cursor c \<le> cursor c' \<and> nesting c' = nesting c"
proof (induction c args arbitrary: a c' rule: RemainingArgs_loop.induct)
  case (1 c args)
  obtain b c1 where na: "NextArg c = (b, c1)"
    by (cases "NextArg c")
  show ?case
  proof (cases b)
    case False
    with na "1.prems" have "c' = c"
      by (auto simp: RemainingArgs_loop.simps [of c] dest: NextArg_False)
    then show ?thesis by (simp add: frame_def)
  next
    case True
    with na have c1: "c1 = c\<lparr>cursor := cursor c + 1\<rparr>"
      by (auto dest: NextArg_True)
    show ?thesis
    proof (cases "Val c1 = ''{''")
      case brace: True
      with na \<open>b\<close> "1.prems" have "c' = c1\<lparr>cursor := cursor c1 - 1\<rparr>"
        by (simp add: RemainingArgs_loop.simps [of c])
      with c1 show ?thesis by (simp add: frame_def)
    next
      case nobrace: False
      with na \<open>b\<close> "1.prems" have rec: "RemainingArgs_loop c1 (args @ [Val c1]) = (a, c')"
        by (simp add: RemainingArgs_loop.simps [of c])
      from \<open>b\<close> have "b = True" by simp
      from "1.IH" [OF na [symmetric] this nobrace rec]
      have "frame c1 c' \<and> cursor c1 \<le> cursor c' \<and> nesting c' = nesting c1" .
      with c1 show ?thesis by (simp add: frame_def)
    qed
  qed
qed

lemma RemainingArgs_frame:
  "RemainingArgs c = (a, c') \<Longrightarrow>
     frame c c' \<and> cursor c \<le> cursor c' \<and> nesting c' = nesting c"
  unfolding RemainingArgs_def by (rule RemainingArgs_loop_frame)

text \<open>The body of the \<^verbatim>\<open>switch c.Val()\<close> statement, lines 98 to 162.\<close>

definition directive :: "env \<Rightarrow> Controller \<Rightarrow> Repo \<Rightarrow> error option \<times> Repo \<times> Controller" where
  "directive E c repo =
     (let v = Val c in
      if v = ''repo'' then
        (case NextArg c of
           (False, c1) \<Rightarrow> (Some (ArgErr_at c1), repo, c1)
         | (True, c1) \<Rightarrow> (None, repo\<lparr>URL := Val c1\<rparr>, c1))
      else if v = ''path'' then
        (case NextArg c of
           (False, c1) \<Rightarrow> (Some (ArgErr_at c1), repo, c1)
         | (True, c1) \<Rightarrow>
             (None, repo\<lparr>Path := Clean E (Root c1 @ Separator E @ Val c1)\<rparr>, c1))
      else if v = ''branch'' then
        (case NextArg c of
           (False, c1) \<Rightarrow> (Some (ArgErr_at c1), repo, c1)
         | (True, c1) \<Rightarrow> (None, repo\<lparr>Branch := Val c1\<rparr>, c1))
      else if v = ''key'' then
        (case NextArg c of
           (False, c1) \<Rightarrow> (Some (ArgErr_at c1), repo, c1)
         | (True, c1) \<Rightarrow> (None, repo\<lparr>KeyPath := Val c1\<rparr>, c1))
      else if v = ''interval'' then
        (case NextArg c of
           (False, c1) \<Rightarrow> (Some (ArgErr_at c1), repo, c1)
         | (True, c1) \<Rightarrow>
             (let t = fst (Atoi (Val c1)) in
              if 0 < t then (None, repo\<lparr>Interval := wrap64 (t * Second)\<rparr>, c1)
              else (None, repo, c1)))
      else if v = ''hook'' then
        (case NextArg c of
           (False, c1) \<Rightarrow> (Some (ArgErr_at c1), repo, c1)
         | (True, c1) \<Rightarrow>
             (let repo1 = repo\<lparr>Hook := (Hook repo)\<lparr>Url := Val c1\<rparr>\<rparr> in
              case NextArg c1 of
                (True, c2) \<Rightarrow> (None, repo1\<lparr>Hook := (Hook repo1)\<lparr>Secret := Val c2\<rparr>\<rparr>, c2)
              | (False, c2) \<Rightarrow> (None, repo1, c2)))
      else if v = ''hook_type'' then
        (case NextArg c of
           (False, c1) \<Rightarrow> (Some (ArgErr_at c1), repo, c1)
         | (True, c1) \<Rightarrow>
             (let t = Val c1 in
              if t \<notin> set (handlers E) then (Some (HookTypeErr t), repo, c1)
              else (None, repo\<lparr>Hook := (Hook repo)\<lparr>Type := t\<rparr>\<rparr>, c1)))
      else if v = ''then'' then
        (case NextArg c of
           (False, c1) \<Rightarrow> (Some (ArgErr_at c1), repo, c1)
         | (True, c1) \<Rightarrow>
             (let command = Val c1; (args, c2) = RemainingArgs c1 in
              (None, repo\<lparr>Then := Then repo @ [NewThen command args]\<rparr>, c2)))
      else if v = ''then_long'' then
        (case NextArg c of
           (False, c1) \<Rightarrow> (Some (ArgErr_at c1), repo, c1)
         | (True, c1) \<Rightarrow>
             (let command = Val c1; (args, c2) = RemainingArgs c1 in
              (None, repo\<lparr>Then := Then repo @ [NewLongThen command args]\<rparr>, c2)))
      else (Some (ArgErr_at c), repo, c))"

lemma directive_frame:
  "directive E c repo = (err, repo', c') \<Longrightarrow>
     frame c c' \<and> cursor c \<le> cursor c' \<and> nesting c' = nesting c"
proof -
  assume d: "directive E c repo = (err, repo', c')"
  obtain b c1 where na: "NextArg c = (b, c1)"
    by (cases "NextArg c")
  obtain b2 c2 where na2: "NextArg c1 = (b2, c2)"
    by (cases "NextArg c1")
  obtain a c3 where ra: "RemainingArgs c1 = (a, c3)"
    by (cases "RemainingArgs c1")
  from na have f1: "frame c c1 \<and> cursor c \<le> cursor c1 \<and> nesting c1 = nesting c"
    by (cases b) (auto simp: frame_def dest: NextArg_True NextArg_False)
  from na2 have f2: "frame c1 c2 \<and> cursor c1 \<le> cursor c2 \<and> nesting c2 = nesting c1"
    by (cases b2) (auto simp: frame_def dest: NextArg_True NextArg_False)
  from ra have f3: "frame c1 c3 \<and> cursor c1 \<le> cursor c3 \<and> nesting c3 = nesting c1"
    by (rule RemainingArgs_frame)
  have "c' = c \<or> c' = c1 \<or> c' = c2 \<or> c' = c3"
    using d na na2 ra
    by (auto simp: directive_def Let_def split: if_splits bool.splits)
  with f1 f2 f3 show ?thesis
    by (auto simp: frame_def)
qed

lemma directive_progress:
  "directive E c repo = (None, repo', c') \<Longrightarrow>
     cursor c < cursor c' \<and> cursor c < int (length (tokens c))"
proof -
  assume d: "directive E c repo = (None, repo', c')"
  obtain b c1 where na: "NextArg c = (b, c1)"
    by (cases "NextArg c")
  obtain b2 c2 where na2: "NextArg c1 = (b2, c2)"
    by (cases "NextArg c1")
  obtain a c3 where ra: "RemainingArgs c1 = (a, c3)"
    by (cases "RemainingArgs c1")
  from d na have b: "b"
    by (cases b) (auto simp: directive_def Let_def split: if_splits)
  with na have c1: "cursor c1 = cursor c + 1" "cursor c < int (length (tokens c))"
    by (auto dest: NextArg_True)
  from na2 have f2: "cursor c1 \<le> cursor c2"
    by (auto dest: NextArg_frame)
  from ra have f3: "cursor c1 \<le> cursor c3"
    by (auto dest: RemainingArgs_frame)
  have "c' = c1 \<or> c' = c2 \<or> c' = c3"
    using d na na2 ra b
    by (auto simp: directive_def Let_def split: if_splits bool.splits)
  with c1 f2 f3 show ?thesis
    by auto
qed

lemma block_loop_decreases:
  assumes nb: "NextBlock c = (b, c1)" and dr: "directive E c1 repo = (None, r, c2)"
  shows "nat (int (length (tokens c2)) - cursor c2) < nat (int (length (tokens c)) - cursor c)"
proof -
  from nb have "tokens c1 = tokens c" "cursor c \<le> cursor c1"
    by (auto simp: frame_def dest: NextBlock_frame)
  moreover have "tokens c2 = tokens c1" "cursor c1 < cursor c2"
    "cursor c1 < int (length (tokens c1))"
    using directive_frame [OF dr] directive_progress [OF dr]
    by (auto simp: frame_def)
  ultimately show ?thesis
    by simp
qed

text \<open>The loop \<^verbatim>\<open>for c.NextBlock() { switch ... }\<close>, lines 97 to 163.\<close>

function block_loop :: "env \<Rightarrow> Controller \<Rightarrow> Repo \<Rightarrow> error option \<times> Repo \<times> Controller" where
  "block_loop E c repo =
     (case NextBlock c of
        (False, c1) \<Rightarrow> (None, repo, c1)
      | (True, c1) \<Rightarrow>
          (case directive E c1 repo of
             (Some err, repo', c2) \<Rightarrow> (Some err, repo', c2)
           | (None, repo', c2) \<Rightarrow> block_loop E c2 repo'))"
  by pat_completeness auto
termination
  apply (relation "measure (\<lambda>(E, c, repo). nat (int (length (tokens c)) - cursor c))")
   apply simp
  apply clarsimp
  subgoal premises prems for E c repo b c1 r c2
    using block_loop_decreases [OF prems(1) [symmetric], of E repo r c2] prems
    by simp
  done

text \<open>
  The labels that the loop of lines 97 to 163 dispatches on, in order: the sub-directives
  that a block runs. It follows \<open>block_loop\<close> step by step.
\<close>

function block_labels :: "env \<Rightarrow> Controller \<Rightarrow> Repo \<Rightarrow> string list" where
  "block_labels E c repo =
     (case NextBlock c of
        (False, c1) \<Rightarrow> []
      | (True, c1) \<Rightarrow>
          Val c1 #
          (case directive E c1 repo of
             (Some err, repo', c2) \<Rightarrow> []
           | (None, repo', c2) \<Rightarrow> block_labels E c2 repo'))"
  by pat_completeness auto
termination
  apply (relation "measure (\<lambda>(E, c, repo). nat (int (length (tokens c)) - cursor c))")
   apply simp
  apply clarsimp
  subgoal premises prems for E c repo b c1 r c2
    using block_loop_decreases [OF prems(1) [symmetric], of E repo r c2] prems
    by simp
  done

lemma block_loop_frame:
  "block_loop E c repo = (err, repo', c') \<Longrightarrow> frame c c' \<and> cursor c \<le> cursor c'"
proof (induction E c repo arbitrary: err repo' c' rule: block_loop.induct)
  case (1 E c repo)
  obtain b c1 where nb: "NextBlock c = (b, c1)"
    by (cases "NextBlock c")
  then have f1: "frame c c1 \<and> cursor c \<le> cursor c1"
    by (rule NextBlock_frame)
  show ?case
  proof (cases b)
    case False
    with nb "1.prems" have "c' = c1"
      by (simp add: block_loop.simps [of E c])
    with f1 show ?thesis by simp
  next
    case True
    obtain d r c2 where dr: "directive E c1 repo = (d, r, c2)"
      by (cases "directive E c1 repo")
    then have f2: "frame c1 c2 \<and> cursor c1 \<le> cursor c2"
      by (auto dest: directive_frame)
    show ?thesis
    proof (cases d)
      case (Some e)
      with nb True dr "1.prems" have "c' = c2"
        by (simp add: block_loop.simps [of E c])
      with f1 f2 show ?thesis by (auto intro: frame_trans)
    next
      case None
      with nb True dr "1.prems" have rec: "block_loop E c2 r = (err, repo', c')"
        by (simp add: block_loop.simps [of E c])
      from True have "b = True" by simp
      from "1.IH" [OF nb [symmetric] this dr [symmetric] None refl rec]
      have "frame c2 c' \<and> cursor c2 \<le> cursor c'" .
      with f1 f2 show ?thesis by (auto intro: frame_trans)
    qed
  qed
qed

text \<open>Lines 185 to 199: what follows the normalization of the address.\<close>

definition finish_repo ::
  "env \<Rightarrow> Controller \<Rightarrow> world \<Rightarrow> Repo \<Rightarrow> error option
     \<Rightarrow> error option \<times> Repo \<times> Controller \<times> world" where
  "finish_repo E c w repo err =
     (case err of
        Some e \<Rightarrow> (Some e, repo, c, w)
      | None \<Rightarrow>
          (case Init E w of
             (Some e, w1) \<Rightarrow> (Some e, repo, c, w1)
           | (None, w1) \<Rightarrow>
               (case Prepare E repo w1 of
                  (Some e, w2) \<Rightarrow> (Some e, repo, c, w2)
                | (None, w2) \<Rightarrow> (None, repo, c, w2))))"

text \<open>
  The body of the loop \<^verbatim>\<open>for c.Next()\<close>, lines 85 to 199, for one directive. The result
  carries the error of an early \<^verbatim>\<open>return nil, err\<close>, or the descriptor to append.
\<close>

definition new_repo :: "Controller \<Rightarrow> Repo" where
  \<comment> \<open>\<^verbatim>\<open>&Repo{Branch: "master", Interval: DefaultInterval, Path: c.Root}\<close>\<close>
  "new_repo c =
     \<lparr>URL = [], Path = Root c, Host = [], Branch = ''master'', KeyPath = [],
      Interval = DefaultInterval, Then = [], Hook = \<lparr>Url = [], Secret = [], Type = []\<rparr>\<rparr>"

definition positional :: "env \<Rightarrow> Controller \<Rightarrow> string list \<Rightarrow> Repo \<Rightarrow> Repo" where
  \<comment> \<open>the \<^verbatim>\<open>switch len(args)\<close> with its fallthrough\<close>
  "positional E c args repo =
     (if length args = 2 then
        repo\<lparr>Path := Clean E (Root c @ Separator E @ args ! 1), URL := args ! 0\<rparr>
      else if length args = 1 then repo\<lparr>URL := args ! 0\<rparr>
      else repo)"

definition parse_one ::
  "env \<Rightarrow> Controller \<Rightarrow> world \<Rightarrow> (error option \<times> Repo \<times> Controller \<times> world) go" where
  "parse_one E c w =
     (let (args, c1) = RemainingArgs c;
          repo1 = positional E c1 args (new_repo c)
      in
      case block_loop E c1 repo1 of
        (Some e, repo2, c2) \<Rightarrow> Ret (Some e, repo2, c2, w)
      | (None, repo2, c2) \<Rightarrow>
          if URL repo2 = [] then Ret (Some (ArgErr_at c2), repo2, c2, w)
          else if KeyPath repo2 = [] then
            (case sanitizeHTTP (URL repo2) of
               Panic \<Rightarrow> Panic
             | Ret (u, h, err) \<Rightarrow> Ret (finish_repo E c2 w (repo2\<lparr>URL := u, Host := h\<rparr>) err))
          else
            (case sanitizeGit (URL repo2) of
               Panic \<Rightarrow> Panic
             | Ret (u, h, err) \<Rightarrow>
                 if GOOS E = ''windows'' then
                   Ret (Some WindowsUnsupported, repo2\<lparr>URL := u, Host := h\<rparr>, c2, w)
                 else Ret (finish_repo E c2 w (repo2\<lparr>URL := u, Host := h\<rparr>) err)))"

lemma finish_repo_controller: "finish_repo E c w repo err = (e, r, c', w') \<Longrightarrow> c' = c \<and> r = repo"
  by (auto simp: finish_repo_def split: option.splits prod.splits)

lemma parse_one_frame:
  assumes "parse_one E c w = Ret (e, r, c', w')"
  shows "frame c c' \<and> cursor c \<le> cursor c'"
proof -
  obtain args c1 where ra: "RemainingArgs c = (args, c1)"
    by (cases "RemainingArgs c")
  obtain d r2 c2 where bl: "block_loop E c1 (positional E c1 args (new_repo c)) = (d, r2, c2)"
    by (cases "block_loop E c1 (positional E c1 args (new_repo c))")
  from ra have f1: "frame c c1 \<and> cursor c \<le> cursor c1"
    by (auto dest: RemainingArgs_frame)
  from bl have f2: "frame c1 c2 \<and> cursor c1 \<le> cursor c2"
    by (rule block_loop_frame)
  from assms ra bl have "c' = c2"
    by (auto simp: parse_one_def split: option.splits if_splits go.splits
        dest: finish_repo_controller)
  with f1 f2 show ?thesis
    by (auto intro: frame_trans)
qed

lemma parse_loop_decreases:
  assumes nx: "Next c = (True, c1)" and po: "parse_one E c1 w = Ret (e, r, c2, w2)"
  shows "cursor c < int (length (tokens c)) \<and>
         int (length (tokens c2)) - cursor c2 < int (length (tokens c)) - cursor c"
proof -
  from nx have "tokens c1 = tokens c" "cursor c1 = cursor c + 1"
    "cursor c < int (length (tokens c)) - 1"
    by (auto dest: Next_True)
  moreover from parse_one_frame [OF po] have "tokens c2 = tokens c1" "cursor c1 \<le> cursor c2"
    by (auto simp: frame_def)
  ultimately show ?thesis
    by simp
qed

text \<open>
  \<^verbatim>\<open>parse\<close>, lines 81 to 204: the loop over the directives, with the slice \<^verbatim>\<open>git\<close> as
  accumulator. An error returns \<^verbatim>\<open>nil\<close> (the empty list) and the error.
\<close>

function parse_loop ::
  "env \<Rightarrow> Controller \<Rightarrow> world \<Rightarrow> Repo list
     \<Rightarrow> ((Repo list \<times> error option) \<times> Controller \<times> world) go" where
  "parse_loop E c w git =
     (case Next c of
        (False, c1) \<Rightarrow> Ret ((git, None), c1, w)
      | (True, c1) \<Rightarrow>
          (case parse_one E c1 w of
             Panic \<Rightarrow> Panic
           | Ret (Some err, repo, c2, w2) \<Rightarrow> Ret (([], Some err), c2, w2)
           | Ret (None, repo, c2, w2) \<Rightarrow> parse_loop E c2 w2 (git @ [repo])))"
  by pat_completeness auto
termination
  apply (relation "measure (\<lambda>(E, c, w, git). nat (int (length (tokens c)) - cursor c))")
   apply simp
  apply clarsimp
  subgoal premises prems
    using parse_loop_decreases [OF prems(1) [symmetric] prems(3)]
    by simp
  done

definition parse ::
  "env \<Rightarrow> Controller \<Rightarrow> world \<Rightarrow> ((Repo list \<times> error option) \<times> Controller \<times> world) go" where
  "parse E c w = parse_loop E c w []"

section \<open>\<^verbatim>\<open>Setup\<close>\<close>

text \<open>
  The middleware \<^verbatim>\<open>Setup\<close> returns is the handler that wraps
  \<^verbatim>\<open>&WebHook{Repos: hookRepos}\<close>.
\<close>

datatype middleware = WebHookMiddleware "Repo list"

text \<open>
  Lines 36 to 59: the loop over the parsed descriptors (\<^verbatim>\<open>git.Repo(i)\<close> is the
  \<open>i\<close>-th descriptor). Each closure captures the \<^verbatim>\<open>repo\<close> of its own iteration.
\<close>

fun Setup_loop ::
  "env \<Rightarrow> Repo list \<Rightarrow> Repo list \<Rightarrow> startup list \<Rightarrow> Repo list \<times> startup list" where
  "Setup_loop E [] hookRepos startupFuncs = (hookRepos, startupFuncs)"
| "Setup_loop E (repo # git) hookRepos startupFuncs =
     (if Url (Hook repo) \<noteq> [] then
        Setup_loop E git (hookRepos @ [repo]) (startupFuncs @ [\<lambda>w. Pull E repo w])
      else
        Setup_loop E git hookRepos
          (startupFuncs @ [\<lambda>w. (let w1 = Start E repo w in Pull E repo w1)]))"

definition OncePerServerBlock ::
  "(Controller \<Rightarrow> error option \<times> Controller) \<Rightarrow> Controller \<Rightarrow> error option \<times> Controller" where
  \<comment> \<open>Modelled from the spec: the hosting server's guard, which runs the callback
      exactly once per distinct configuration context, however many times the same
      context is met during evaluation; later calls do nothing and return \<^verbatim>\<open>nil\<close>.\<close>
  "OncePerServerBlock f c =
     (if once_done c then (None, c) else f (c\<lparr>once_done := True\<rparr>))"

definition Setup ::
  "env \<Rightarrow> Controller \<Rightarrow> world
     \<Rightarrow> ((middleware option \<times> error option) \<times> Controller \<times> world) go" where
  "Setup E c w =
     (case parse E c w of
        Panic \<Rightarrow> Panic
      | Ret ((git, Some err), c1, w1) \<Rightarrow> Ret ((None, Some err), c1, w1)
      | Ret ((git, None), c1, w1) \<Rightarrow>
          (let (hookRepos, startupFuncs) = Setup_loop E git [] [];
               c2 = snd (OncePerServerBlock
                          (\<lambda>c. (None, c\<lparr>Startup := Startup c @ startupFuncs\<rparr>)) c1)
           in
           if 0 < length hookRepos then Ret ((Some (WebHookMiddleware hookRepos), None), c2, w1)
           else Ret ((None, None), c2, w1)))"

text \<open>
  Modelled from the spec: the hosting server evaluates one shared block once for each of
  the logical contexts that share it. Every evaluation reads the same tokens from the
  start; the guard and the startup list are those of the block. An error ends the
  configuration load.
\<close>

definition rewind :: "Controller \<Rightarrow> Controller" where
  "rewind c = c\<lparr>cursor := - 1, nesting := 0\<rparr>"

fun eval_contexts ::
  "env \<Rightarrow> nat \<Rightarrow> Controller \<Rightarrow> world \<Rightarrow> (error option \<times> Controller \<times> world) go" where
  "eval_contexts E 0 c w = Ret (None, c, w)"
| "eval_contexts E (Suc n) c w =
     (case Setup E (rewind c) w of
        Panic \<Rightarrow> Panic
      | Ret ((mw, Some err), c1, w1) \<Rightarrow> Ret (Some err, c1, w1)
      | Ret ((mw, None), c1, w1) \<Rightarrow> eval_contexts E n c1 w1)"

text \<open>Tokens, a controller at the start of its block, and an outside where every
  collaborator succeeds: the inputs of the examples below.\<close>

definition tok :: "string \<Rightarrow> nat \<Rightarrow> token" where
  "tok s l = \<lparr>tok_text = s, tok_line = l\<rparr>"

definition controller :: "token list \<Rightarrow> Controller" where
  "controller ts =
     \<lparr>tokens = ts, cursor = - 1, nesting = 0, Root = ''/srv'', Startup = [],
      once_done = False\<rparr>"

definition platform :: "string \<Rightarrow> env" where
  "platform os =
     \<lparr>GOOS = os, Separator = ''/'', Clean = (\<lambda>s. s), handlers = [''github''],
      Init_result = (\<lambda>w. None), Prepare_result = (\<lambda>w r. None),
      Pull_result = (\<lambda>w r. None)\<rparr>"

section \<open>Example inputs and vocabulary of the statements\<close>

text \<open>Example blocks and the descriptors they yield.\<close>

definition key_block :: "token list" where
  \<comment> \<open>\<^verbatim>\<open>git git@github.com:org/repo { key /etc/keys/id_rsa }\<close>\<close>
  "key_block =
     [tok ''git'' 1, tok ''git@github.com:org/repo'' 1, tok ''{'' 1,
      tok ''key'' 2, tok ''/etc/keys/id_rsa'' 2,
      tok ''}'' 3]"

definition key_repo :: Repo where
  "key_repo =
     \<lparr>URL = ''git@github.com:org/repo.git'', Path = ''/srv'', Host = ''github.com'',
      Branch = ''master'', KeyPath = ''/etc/keys/id_rsa'', Interval = 3600000000000,
      Then = [], Hook = \<lparr>Url = [], Secret = [], Type = []\<rparr>\<rparr>"

definition key_block_no_path :: "token list" where
  \<comment> \<open>\<^verbatim>\<open>git https://github.com { key /etc/keys/id_rsa }\<close>\<close>
  "key_block_no_path =
     [tok ''git'' 1, tok ''https://github.com'' 1, tok ''{'' 1,
      tok ''key'' 2, tok ''/etc/keys/id_rsa'' 2,
      tok ''}'' 3]"

definition observe ::
  "((Repo list \<times> error option) \<times> Controller \<times> world) go
     \<Rightarrow> (Repo list \<times> error option \<times> int \<times> world) option" where
  \<comment> \<open>what a run of \<^verbatim>\<open>parse\<close> returned, with the cursor for the controller\<close>
  "observe r =
     (case r of Panic \<Rightarrow> None | Ret ((git, err), c', w') \<Rightarrow> Some (git, err, cursor c', w'))"

definition labels :: "string list" where
  \<comment> \<open>the \<^verbatim>\<open>case\<close> labels of lines 99 to 153\<close>
  "labels = [''repo'', ''path'', ''branch'', ''key'', ''interval'', ''hook'', ''hook_type'',
             ''then'', ''then_long'']"


text \<open>
  What the specification calls an integer value: an optional sign and at least one decimal
  digit, with the number it denotes.
\<close>

definition decimal_literal :: "string \<Rightarrow> bool" where
  "decimal_literal s \<longleftrightarrow>
     (case s of
        [] \<Rightarrow> False
      | c # r \<Rightarrow> if c = CHR ''+'' \<or> c = CHR ''-'' then r \<noteq> [] \<and> list_all isDigit r
                 else list_all isDigit s)"

definition literal_value :: "string \<Rightarrow> int" where
  "literal_value s =
     (case s of
        [] \<Rightarrow> 0
      | c # r \<Rightarrow> if c = CHR ''+'' then digits_value r
                 else if c = CHR ''-'' then - digits_value r
                 else digits_value s)"

definition huge_interval_block :: "token list" where
  \<comment> \<open>\<^verbatim>\<open>git https://github.com/a/b { interval 99999999999999999999 }\<close>\<close>
  "huge_interval_block =
     [tok ''git'' 1, tok ''https://github.com/a/b'' 1, tok ''{'' 1,
      tok ''interval'' 2, tok ''99999999999999999999'' 2,
      tok ''}'' 3]"

definition huge_interval_repo :: Repo where
  "huge_interval_repo =
     \<lparr>URL = ''https://github.com/a/b.git'', Path = ''/srv'', Host = ''github.com'',
      Branch = ''master'', KeyPath = [], Interval = - 1000000000,
      Then = [], Hook = \<lparr>Url = [], Secret = [], Type = []\<rparr>\<rparr>"

definition interval_line :: "string \<Rightarrow> Controller" where
  \<comment> \<open>inside a block, at the label of the line \<^verbatim>\<open>interval v\<close>\<close>
  "interval_line v =
     (controller [tok ''interval'' 1, tok v 1])\<lparr>cursor := 0, nesting := 1\<rparr>"

definition two_blocks :: "token list" where
  \<comment> \<open>a polled repository, and one with a hook that also sets an interval\<close>
  "two_blocks =
     [tok ''git'' 1, tok ''https://github.com/a/b'' 1,
      tok ''git'' 2, tok ''https://github.com/a/c'' 2, tok ''{'' 2,
      tok ''hook'' 3, tok ''/hook'' 3, tok ''s3cr3t'' 3,
      tok ''interval'' 4, tok ''30'' 4,
      tok ''}'' 5]"

definition poll_repo :: Repo where
  "poll_repo =
     \<lparr>URL = ''https://github.com/a/b.git'', Path = ''/srv'', Host = ''github.com'',
      Branch = ''master'', KeyPath = [], Interval = 3600000000000,
      Then = [], Hook = \<lparr>Url = [], Secret = [], Type = []\<rparr>\<rparr>"

definition hook_repo :: Repo where
  "hook_repo =
     \<lparr>URL = ''https://github.com/a/c.git'', Path = ''/srv'', Host = ''github.com'',
      Branch = ''master'', KeyPath = [], Interval = 30000000000,
      Then = [], Hook = \<lparr>Url = ''/hook'', Secret = ''s3cr3t'', Type = []\<rparr>\<rparr>"

text \<open>A string without the characters that \<^verbatim>\<open>url.Parse\<close> treats specially.\<close>

definition plain :: "string \<Rightarrow> bool" where
  "plain s \<longleftrightarrow> CHR ''#'' \<notin> set s \<and> CHR ''?'' \<notin> set s \<and> CHR ''%'' \<notin> set s"

section \<open>The normalizers: bounds and totality\<close>

text \<open>
  C10. \<^verbatim>\<open>sanitizeGit\<close> is claimed to keep every slice in bounds, in particular for an
  http(s) address with an empty path. For \<^verbatim>\<open>https://github.com\<close> the parsed path is
  empty, so \<^verbatim>\<open>url.Path[1:]\<close> on line 257 is out of range and the call panics.
\<close>

theorem sanitizeGit_panics_on_empty_path:
  "url_Parse ''https://github.com'' =
     Inr (empty_URL\<lparr>url_Scheme := ''https'', url_Host := ''github.com''\<rparr>) \<and>
   sanitizeGit ''https://github.com'' = Panic"
  by code_simp

theorem sanitizeGit_empty_path_witness:
  "sanitizeGit ''https://github.com'' \<noteq> Ret (''git@github.com:.git'', ''github.com'', None)"
  using sanitizeGit_panics_on_empty_path by simp

lemma Index_absent: "c \<notin> set s \<Longrightarrow> Index s [c] = - 1"
  by (induction s) auto

lemma Index_first: "c \<notin> set h \<Longrightarrow> Index (h @ c # q) [c] = int (length h)"
  by (induction h) auto

lemma Index_nonneg_prefix:
  "0 \<le> Index s sep \<Longrightarrow> prefix sep (drop (nat (Index s sep)) s)"
proof (induction s)
  case Nil
  then show ?case by (auto split: if_splits)
next
  case (Cons c cs)
  show ?case
  proof (cases "prefix sep (c # cs)")
    case True
    then show ?thesis by simp
  next
    case False
    with Cons.prems have r: "0 \<le> Index cs sep"
      by (auto simp: Let_def split: if_splits)
    with False have "Index (c # cs) sep = Index cs sep + 1"
      by (simp add: Let_def)
    moreover from r have "nat (Index cs sep + 1) = Suc (nat (Index cs sep))"
      by simp
    ultimately show ?thesis
      using Cons.IH [OF r] by simp
  qed
qed

lemma Index_ge: "- 1 \<le> Index s sep"
  by (induction s) (auto simp: Let_def)

lemma Split1_hd:
  "Split1 sep acc s \<noteq> [] \<and> hd (Split1 sep acc s) = acc @ takeWhile (\<lambda>c. c \<noteq> sep) s"
  by (induction s arbitrary: acc) auto

lemma Split_leading_sep:
  "Split (sep # q) sep = [] # Split q sep"
  by (simp add: Split_def)

lemma Split_second:
  "index_at (Split (sep # q) sep) 1 = Ret (takeWhile (\<lambda>c. c \<noteq> sep) q)"
proof -
  have "Split q sep \<noteq> []" "hd (Split q sep) = takeWhile (\<lambda>c. c \<noteq> sep) q"
    using Split1_hd [of sep "[]" q] by (simp_all add: Split_def)
  then show ?thesis
    by (cases "Split q sep") (simp_all add: index_at_def Split_leading_sep)
qed

lemma unescape_slash:
  "unescape (CHR ''/'' # s) = Inr p \<Longrightarrow> \<exists>p'. p = CHR ''/'' # p'"
  by (auto split: sum.splits)

lemma url_split_slash_rest:
  "url_split s ''/'' False = (a, rest) \<Longrightarrow> rest = [] \<or> (\<exists>t. rest = CHR ''/'' # t)"
proof -
  assume us: "url_split s ''/'' False = (a, rest)"
  show ?thesis
  proof (cases "Index s ''/'' < 0")
    case True
    with us show ?thesis by (simp add: url_split_def Let_def)
  next
    case False
    then have "prefix ''/'' (drop (nat (Index s ''/'')) s)"
      by (intro Index_nonneg_prefix) simp
    moreover from us False have "rest = drop (nat (Index s ''/'')) s"
      by (simp add: url_split_def Let_def)
    ultimately show ?thesis
      by (auto simp: prefix_def)
  qed
qed

lemma url_parse_user_path:
  assumes "url_parse s = Inr u" and "url_User u \<noteq> None"
  shows "url_Path u = [] \<or> (\<exists>t. url_Path u = CHR ''/'' # t)"
proof (cases "s = ''*''")
  case True
  with assms show ?thesis by (auto simp: url_parse_def empty_URL_def)
next
  case False
  obtain scheme rest0 where gs: "getscheme s = Inr (scheme, rest0)"
    using assms False by (auto simp: url_parse_def split: sum.splits)
  obtain rest query where q: "url_split rest0 ''?'' True = (rest, query)"
    by (cases "url_split rest0 ''?'' True")
  obtain authority rest' where a: "url_split (drop 2 rest) ''/'' False = (authority, rest')"
    by (cases "url_split (drop 2 rest) ''/'' False")
  from a have r': "rest' = [] \<or> (\<exists>t. rest' = CHR ''/'' # t)"
    by (rule url_split_slash_rest)
  from assms False gs q a obtain p where "unescape rest' = Inr p" "url_Path u = p"
    by (auto simp: url_parse_def empty_URL_def Let_def split: sum.splits if_splits prod.splits)
  with r' show ?thesis
    by (auto dest: unescape_slash)
qed

lemma url_Parse_user_path:
  assumes "url_Parse s = Inr u" and "url_User u \<noteq> None"
  shows "url_Path u = [] \<or> (\<exists>t. url_Path u = CHR ''/'' # t)"
proof -
  obtain s' frag where sp: "url_split s ''#'' True = (s', frag)"
    by (cases "url_split s ''#'' True")
  with assms obtain u' where u': "url_parse s' = Inr u'"
    and eq: "url_User u = url_User u'" "url_Path u = url_Path u'"
    by (auto simp: url_Parse_def split: sum.splits if_splits)
  with assms url_parse_user_path [OF u'] show ?thesis
    by simp
qed

lemma scp_form_no_user:
  assumes "url_Parse s = Inr u" and "url_Path u = ''git@'' @ r"
  shows "url_User u = None"
proof (cases "url_User u")
  case None
  then show ?thesis .
next
  case (Some ui)
  then have "url_User u \<noteq> None" by simp
  from url_Parse_user_path [OF assms(1) this] assms(2) show ?thesis
    by simp
qed

section \<open>\<^verbatim>\<open>sanitizeHTTP\<close> on SCP-style addresses\<close>

lemma scp_rewrite_no_colon:
  assumes "url_Host url = []" and "url_Path url = ''git@'' @ r" and "CHR '':'' \<notin> set r"
  shows "scp_rewrite repoURL url = Ret (Inl (InvalidGitURL repoURL))"
  using assms Index_absent [of "CHR '':''" r]
  by (simp add: scp_rewrite_def HasPrefix_def slice_from_def Let_def)

lemma scp_rewrite_colon:
  assumes "url_Host url = []" and "url_Path url = ''git@'' @ h @ '':'' @ q"
    and "CHR '':'' \<notin> set h"
  shows "scp_rewrite repoURL url = Ret (Inr (url\<lparr>url_Host := h, url_Path := ''/'' @ q\<rparr>))"
proof -
  have "nat (int (length h) + 1) = Suc (length h)"
    by simp
  with assms Index_first [of "CHR '':''" h q] show ?thesis
    by (simp add: scp_rewrite_def HasPrefix_def slice_from_def slice_to_def Let_def)
qed

text \<open>
  C4 (as amended). For an address in SCP-style form (the parsed record has no host and a
  path \<^verbatim>\<open>git@\<close>\<open>r\<close>): if \<open>r\<close> has no colon the call returns the invalid-address error;
  if \<open>r\<close> is \<open>h\<close>\<^verbatim>\<open>:\<close>\<open>q\<close> with no colon in \<open>h\<close>, the returned host is \<open>h\<close> and the
  returned address is \<^verbatim>\<open>https://\<close>\<open>h\<close>\<^verbatim>\<open>/\<close>\<open>q\<close>, except for the host
  \<^verbatim>\<open>bitbucket.org\<close>, where the first segment of \<open>q\<close> is put in front of the host as the
  user; in both cases \<^verbatim>\<open>.git\<close> is appended unless the address already ends with it.
\<close>

theorem sanitizeHTTP_scp_form:
  assumes "url_Parse repoURL = Inr url" and "url_Host url = []"
    and "url_Path url = ''git@'' @ r"
  shows "(CHR '':'' \<notin> set r \<longrightarrow>
            sanitizeHTTP repoURL = Ret ([], [], Some (InvalidGitURL repoURL))) \<and>
         (\<forall>h q. r = h @ '':'' @ q \<and> CHR '':'' \<notin> set h \<longrightarrow>
            sanitizeHTTP repoURL =
              Ret (add_git_suffix
                     (if h = ''bitbucket.org''
                      then ''https://'' @ takeWhile (\<lambda>c. c \<noteq> CHR ''/'') q @ ''@'' @ h @ ''/'' @ q
                      else ''https://'' @ h @ ''/'' @ q),
                   h, None))"
proof (intro conjI impI allI)
  assume "CHR '':'' \<notin> set r"
  with assms show "sanitizeHTTP repoURL = Ret ([], [], Some (InvalidGitURL repoURL))"
    by (simp add: sanitizeHTTP_def scp_rewrite_no_colon)
next
  fix h q
  assume hq: "r = h @ '':'' @ q \<and> CHR '':'' \<notin> set h"
  from assms(1,3) have nouser: "url_User url = None"
    by (rule scp_form_no_user)
  from assms hq
  have rw: "scp_rewrite repoURL url = Ret (Inr (url\<lparr>url_Host := h, url_Path := ''/'' @ q\<rparr>))"
    by (intro scp_rewrite_colon) simp_all
  have form: "https_form (url\<lparr>url_Host := h, url_Path := ''/'' @ q\<rparr>) =
      Ret (if h = ''bitbucket.org''
           then ''https://'' @ takeWhile (\<lambda>c. c \<noteq> CHR ''/'') q @ ''@'' @ h @ ''/'' @ q
           else ''https://'' @ h @ ''/'' @ q)"
    using nouser Split_second [of "CHR ''/''" q]
    by (simp add: https_form_def Let_def)
  show "sanitizeHTTP repoURL =
      Ret (add_git_suffix
             (if h = ''bitbucket.org''
              then ''https://'' @ takeWhile (\<lambda>c. c \<noteq> CHR ''/'') q @ ''@'' @ h @ ''/'' @ q
              else ''https://'' @ h @ ''/'' @ q),
           h, None)"
    using assms(1) rw form by (simp add: sanitizeHTTP_def)
qed

lemma parse_scp_github:
  "url_Parse ''git@github.com:org/repo'' = Inr (empty_URL\<lparr>url_Path := ''git@github.com:org/repo''\<rparr>)"
  by code_simp

theorem sanitizeHTTP_scp_form_witness:
  "url_Parse ''git@github.com:org/repo'' =
     Inr (empty_URL\<lparr>url_Path := ''git@'' @ ''github.com'' @ '':'' @ ''org/repo''\<rparr>) \<and>
   CHR '':'' \<notin> set ''github.com'' \<and>
   sanitizeHTTP ''git@github.com:org/repo'' =
     Ret (''https://github.com/org/repo.git'', ''github.com'', None)"
proof -
  have p: "url_Host (empty_URL\<lparr>url_Path := ''git@github.com:org/repo''\<rparr>) = []"
    "url_Path (empty_URL\<lparr>url_Path := ''git@github.com:org/repo''\<rparr>) = ''git@'' @ ''github.com:org/repo''"
    by (simp_all add: empty_URL_def)
  from sanitizeHTTP_scp_form [OF parse_scp_github p, THEN conjunct2, rule_format,
      of "''github.com''" "''org/repo''"]
  have "sanitizeHTTP ''git@github.com:org/repo'' =
      Ret (add_git_suffix (''https://'' @ ''github.com'' @ ''/'' @ ''org/repo''), ''github.com'', None)"
    by simp
  then show ?thesis
    using parse_scp_github by (simp add: add_git_suffix_def HasSuffix_def suffix_def)
qed

text \<open>
  C4 as stated asks for \<^verbatim>\<open>https://<host>/<path>\<close>. The SCP-style address of a Bitbucket
  repository is answered with the account in front of the host.
\<close>

theorem sanitizeHTTP_scp_bitbucket_counterexample:
  "url_Parse ''git@bitbucket.org:acct/repo'' =
     Inr (empty_URL\<lparr>url_Path := ''git@bitbucket.org:acct/repo''\<rparr>) \<and>
   sanitizeHTTP ''git@bitbucket.org:acct/repo'' =
     Ret (''https://acct@bitbucket.org/acct/repo.git'', ''bitbucket.org'', None) \<and>
   sanitizeHTTP ''git@bitbucket.org:acct/repo'' \<noteq>
     Ret (''https://bitbucket.org/acct/repo.git'', ''bitbucket.org'', None)"
  by code_simp

text \<open>
  C5. For a parsed host \<^verbatim>\<open>bitbucket.org\<close> without user information the first path
  segment is to become the user. \<^verbatim>\<open>https://bitbucket.org\<close> has an empty path,
  \<^verbatim>\<open>strings.Split\<close> gives one segment and \<^verbatim>\<open>segments[1]\<close> on line 232 is out of range.
\<close>

theorem sanitizeHTTP_bitbucket_panics_on_empty_path:
  "url_Parse ''https://bitbucket.org'' =
     Inr (empty_URL\<lparr>url_Scheme := ''https'', url_Host := ''bitbucket.org''\<rparr>) \<and>
   Split [] CHR ''/'' = [[]] \<and>
   sanitizeHTTP ''https://bitbucket.org'' = Panic"
  by code_simp

theorem sanitizeHTTP_bitbucket_empty_path_witness:
  "sanitizeHTTP ''https://bitbucket.org'' \<noteq> Ret (''https://@bitbucket.org.git'', ''bitbucket.org'', None)"
  using sanitizeHTTP_bitbucket_panics_on_empty_path by simp

text \<open>Where the path is not empty, the Bitbucket rule does what C5 says.\<close>

lemma sanitizeHTTP_bitbucket:
  assumes "url_Parse repoURL = Inr url" and "url_Host url = ''bitbucket.org''"
    and "url_User url = None" and "url_Path url = ''/'' @ q"
  shows "sanitizeHTTP repoURL =
           Ret (add_git_suffix
                  (''https://'' @ takeWhile (\<lambda>c. c \<noteq> CHR ''/'') q @ ''@bitbucket.org/'' @ q),
                ''bitbucket.org'', None)"
  using assms Split_second [of "CHR ''/''" q]
  by (simp add: sanitizeHTTP_def scp_rewrite_def https_form_def Let_def)

lemma sanitizeHTTP_bitbucket_example:
  "sanitizeHTTP ''https://bitbucket.org/acct/repo'' =
     Ret (''https://acct@bitbucket.org/acct/repo.git'', ''bitbucket.org'', None)"
  by code_simp

section \<open>What a successful normalization returns\<close>

lemma Index_split:
  "0 \<le> Index s [c] \<Longrightarrow>
     \<exists>h q. s = h @ c # q \<and> c \<notin> set h \<and> Index s [c] = int (length h)"
proof (induction s)
  case Nil
  then show ?case by simp
next
  case (Cons x xs)
  show ?case
  proof (cases "x = c")
    case True
    then have "x # xs = [] @ c # xs \<and> c \<notin> set [] \<and> Index (x # xs) [c] = int (length ([]::string))"
      by simp
    then show ?thesis by blast
  next
    case False
    with Cons.prems have r: "0 \<le> Index xs [c]"
      by (auto simp: Let_def split: if_splits)
    from Cons.IH [OF r] obtain h q where
      hq: "xs = h @ c # q" "c \<notin> set h" "Index xs [c] = int (length h)"
      by blast
    with False have "x # xs = (x # h) @ c # q \<and> c \<notin> set (x # h) \<and>
        Index (x # xs) [c] = int (length (x # h))"
      by (auto simp: Let_def)
    then show ?thesis by blast
  qed
qed

lemma add_git_suffix_suffix: "HasSuffix (add_git_suffix r) ''.git''"
  by (auto simp: add_git_suffix_def HasSuffix_def intro: suffixI)


lemma add_git_suffix_append: "\<exists>t. add_git_suffix r = r @ t"
  by (simp add: add_git_suffix_def)

lemma https_form_prefix: "https_form url = Ret r \<Longrightarrow> \<exists>t. r = ''https://'' @ t"
  by (auto simp: https_form_def Let_def split: option.splits if_splits go.splits)

lemma sanitizeHTTP_success:
  assumes "sanitizeHTTP s = Ret (u, h, None)"
  shows "\<exists>t. u = ''https://'' @ t \<and> HasSuffix u ''.git''"
proof -
  from assms obtain url r where "https_form url = Ret r" and u: "u = add_git_suffix r"
    by (auto simp: sanitizeHTTP_def split: sum.splits go.splits)
  then obtain t where "r = ''https://'' @ t"
    by (auto dest: https_form_prefix)
  moreover obtain t' where "add_git_suffix r = r @ t'"
    using add_git_suffix_append by blast
  ultimately have "u = ''https://'' @ (t @ t')"
    using u by simp
  with u show ?thesis
    using add_git_suffix_suffix by blast
qed

lemma sanitizeGit_success:
  assumes "sanitizeGit s = Ret (u, h, None)"
  shows "\<exists>q. u = add_git_suffix (''git@'' @ h @ '':'' @ q) \<and> CHR '':'' \<notin> set h"
proof -
  from assms obtain r hostURL where
    r: "slice_from r (int (length ''git@'')) = Ret hostURL"
       "slice_to hostURL (Index hostURL '':'') = Ret h"
       "u = add_git_suffix r"
    and pre: "HasPrefix r ''git@''"
    by (auto simp: sanitizeGit_def Let_def HasPrefix_def
        split: sum.splits go.splits if_splits)
  from pre r(1) have r4: "r = ''git@'' @ hostURL"
    by (auto simp: HasPrefix_def prefix_def slice_from_def split: if_splits)
  from r(2) have i: "0 \<le> Index hostURL '':''" and h: "h = take (nat (Index hostURL '':'')) hostURL"
    by (auto simp: slice_to_def split: if_splits)
  from Index_split [OF i] obtain h' q where
    hq: "hostURL = h' @ CHR '':'' # q" "CHR '':'' \<notin> set h'"
        "Index hostURL '':'' = int (length h')"
    by blast
  with h have "h = h'" by simp
  with hq r4 r(3) have "u = add_git_suffix (''git@'' @ h @ '':'' @ q) \<and> CHR '':'' \<notin> set h"
    by simp
  then show ?thesis by blast
qed



section \<open>Re-applying a normalizer to its own output\<close>


section \<open>Properties of \<^verbatim>\<open>parse\<close>\<close>

declare RemainingArgs_loop.simps [simp del] block_loop.simps [simp del]
  block_labels.simps [simp del] parse_loop.simps [simp del]

text \<open>How a returning run of the loop is built: it stops, fails, or takes one more step.\<close>

lemma parse_loop_returns [consumes 1, case_names stop error step]:
  assumes run: "parse_loop E c w git = Ret (res, c', w')"
    and stop: "\<And>c w git c1. Next c = (False, c1) \<Longrightarrow> Q c w git (git, None) c1 w"
    and error: "\<And>c w git c1 e r c2 w2.
        Next c = (True, c1) \<Longrightarrow> parse_one E c1 w = Ret (Some e, r, c2, w2) \<Longrightarrow>
        Q c w git ([], Some e) c2 w2"
    and step: "\<And>c w git c1 r c2 w2 res c' w'.
        Next c = (True, c1) \<Longrightarrow> parse_one E c1 w = Ret (None, r, c2, w2) \<Longrightarrow>
        parse_loop E c2 w2 (git @ [r]) = Ret (res, c', w') \<Longrightarrow>
        Q c2 w2 (git @ [r]) res c' w' \<Longrightarrow> Q c w git res c' w'"
  shows "Q c w git res c' w'"
  using run
proof (induction "nat (int (length (tokens c)) - cursor c)" arbitrary: c w git res c' w'
    rule: less_induct)
  case less
  obtain b c1 where nx: "Next c = (b, c1)"
    by (cases "Next c")
  show ?case
  proof (cases b)
    case False
    with nx less.prems have "res = (git, None)" "c' = c1" "w' = w"
      by (simp_all add: parse_loop.simps [of E c])
    with nx False stop show ?thesis by simp
  next
    case True
    with nx have nx': "Next c = (True, c1)" by simp
    show ?thesis
    proof (cases "parse_one E c1 w")
      case Panic
      with nx' less.prems show ?thesis
        by (simp add: parse_loop.simps [of E c])
    next
      case (Ret x)
      obtain eo r c2 w2 where x: "x = (eo, r, c2, w2)"
        by (cases x)
      show ?thesis
      proof (cases eo)
        case (Some e)
        with nx' Ret x less.prems have "res = ([], Some e)" "c' = c2" "w' = w2"
          by (simp_all add: parse_loop.simps [of E c])
        with nx' Ret x Some error [of c c1 w e r c2 w2 git] show ?thesis by simp
      next
        case None
        with Ret x have po: "parse_one E c1 w = Ret (None, r, c2, w2)"
          by simp
        with nx' less.prems
        have rec: "parse_loop E c2 w2 (git @ [r]) = Ret (res, c', w')"
          by (simp add: parse_loop.simps [of E c])
        from parse_loop_decreases [OF nx' po]
        have "nat (int (length (tokens c2)) - cursor c2) < nat (int (length (tokens c)) - cursor c)"
          by simp
        from less.hyps [OF this rec] have "Q c2 w2 (git @ [r]) res c' w'" .
        with nx' po rec show ?thesis
          by (rule step)
      qed
    qed
  qed
qed

lemma finish_repo_None:
  "finish_repo E c w repo err = (None, r, c', w') \<Longrightarrow>
     err = None \<and> r = repo \<and> c' = c \<and> w' = w @ [EvInit, EvPrepare repo]"
  by (auto simp: finish_repo_def Init_def Prepare_def split: option.splits)

text \<open>What a directive that \<^verbatim>\<open>parse\<close> accepts went through.\<close>

lemma parse_one_success:
  assumes "parse_one E c w = Ret (None, repo, c', w')"
  shows "w' = w @ [EvInit, EvPrepare repo] \<and>
         ((KeyPath repo = [] \<and> (\<exists>s. s \<noteq> [] \<and> sanitizeHTTP s = Ret (URL repo, Host repo, None))) \<or>
          (KeyPath repo \<noteq> [] \<and> GOOS E \<noteq> ''windows'' \<and>
           (\<exists>s. s \<noteq> [] \<and> sanitizeGit s = Ret (URL repo, Host repo, None))))"
proof -
  obtain args c1 where ra: "RemainingArgs c = (args, c1)"
    by (cases "RemainingArgs c")
  obtain d r2 c2 where bl: "block_loop E c1 (positional E c1 args (new_repo c)) = (d, r2, c2)"
    by (cases "block_loop E c1 (positional E c1 args (new_repo c))")
  from assms ra bl have d: "d = None" and url: "URL r2 \<noteq> []"
    by (auto simp: parse_one_def split: option.splits if_splits)
  show ?thesis
  proof (cases "KeyPath r2 = []")
    case True
    with assms ra bl d url obtain u h err where
      sn: "sanitizeHTTP (URL r2) = Ret (u, h, err)"
      and fin: "finish_repo E c2 w (r2\<lparr>URL := u, Host := h\<rparr>) err = (None, repo, c', w')"
      by (auto simp: parse_one_def split: go.splits)
    from finish_repo_None [OF fin] sn url True show ?thesis
      by auto
  next
    case False
    with assms ra bl d url obtain u h err where
      sn: "sanitizeGit (URL r2) = Ret (u, h, err)" and os: "GOOS E \<noteq> ''windows''"
      and fin: "finish_repo E c2 w (r2\<lparr>URL := u, Host := h\<rparr>) err = (None, repo, c', w')"
      by (auto simp: parse_one_def split: go.splits if_splits)
    from finish_repo_None [OF fin] sn url False os show ?thesis
      by auto
  qed
qed

lemma parse_loop_all:
  assumes run: "parse_loop E c w git = Ret (res, c', w')"
    and one: "\<And>c w r c' w'. parse_one E c w = Ret (None, r, c', w') \<Longrightarrow> P r"
  shows "list_all P git \<Longrightarrow> list_all P (fst res)"
  using run
proof (induction rule: parse_loop_returns)
  case (stop c w git c1)
  then show ?case by simp
next
  case (error c w git c1 e r c2 w2)
  then show ?case by simp
next
  case (step c w git c1 r c2 w2 res c' w')
  from step.hyps(2) have "P r" by (rule one)
  with step.prems have "list_all P (git @ [r])" by simp
  then show ?case by (rule step.IH)
qed


lemma parse_loop_frame:
  assumes run: "parse_loop E c w git = Ret (res, c', w')"
  shows "frame c c'"
  using run
proof (induction rule: parse_loop_returns)
  case (stop c w git c1)
  then show ?case by (auto dest: Next_False simp: frame_def)
next
  case (error c w git c1 e r c2 w2)
  then show ?case
    by (auto dest!: Next_True parse_one_frame simp: frame_def)
next
  case (step c w git c1 r c2 w2 res c' w')
  then show ?case
    by (auto dest!: Next_True parse_one_frame simp: frame_def)
qed

lemma observe_Some:
  "observe r = Some (git, err, i, w') \<Longrightarrow> \<exists>c'. r = Ret ((git, err), c', w') \<and> cursor c' = i"
  by (auto simp: observe_def split: go.splits)

lemma observe_None: "observe r = None \<Longrightarrow> r = Panic"
  by (auto simp: observe_def split: go.splits)

lemma parse_key_block:
  "observe (parse (platform ''linux'') (controller key_block) []) =
     Some ([key_repo], None, 5, [EvInit, EvPrepare key_repo])"
  by code_simp

text \<open>
  C1. Every descriptor that \<^verbatim>\<open>parse\<close> returns has a non-empty address ending in
  \<^verbatim>\<open>.git\<close>; without a key it begins with \<^verbatim>\<open>https://\<close> and is not of the SSH form; with a
  key it is of the SCP-style SSH form \<^verbatim>\<open>git@host:path\<close> with the descriptor's host, and
  does not begin with \<^verbatim>\<open>https://\<close>.
\<close>

theorem parse_url_forms:
  assumes "parse E c w = Ret ((git, None), c', w')" and "repo \<in> set git"
  shows "URL repo \<noteq> [] \<and> HasSuffix (URL repo) ''.git'' \<and>
         (KeyPath repo = [] \<longrightarrow>
            HasPrefix (URL repo) ''https://'' \<and> \<not> HasPrefix (URL repo) ''git@'') \<and>
         (KeyPath repo \<noteq> [] \<longrightarrow>
            \<not> HasPrefix (URL repo) ''https://'' \<and>
            (\<exists>q. URL repo = ''git@'' @ Host repo @ '':'' @ q \<and> CHR '':'' \<notin> set (Host repo)))"
proof -
  let ?P = "\<lambda>repo. URL repo \<noteq> [] \<and> HasSuffix (URL repo) ''.git'' \<and>
         (KeyPath repo = [] \<longrightarrow>
            HasPrefix (URL repo) ''https://'' \<and> \<not> HasPrefix (URL repo) ''git@'') \<and>
         (KeyPath repo \<noteq> [] \<longrightarrow>
            \<not> HasPrefix (URL repo) ''https://'' \<and>
            (\<exists>q. URL repo = ''git@'' @ Host repo @ '':'' @ q \<and> CHR '':'' \<notin> set (Host repo)))"
  have one: "?P r" if po: "parse_one E c w = Ret (None, r, c', w')" for c w r c' w'
  proof (cases "KeyPath r = []")
    case True
    with parse_one_success [OF po] obtain s where "sanitizeHTTP s = Ret (URL r, Host r, None)"
      by auto
    from sanitizeHTTP_success [OF this] obtain t where
      "URL r = ''https://'' @ t" "HasSuffix (URL r) ''.git''"
      by blast
    with True show ?thesis
      by (simp add: HasPrefix_def)
  next
    case False
    with parse_one_success [OF po] obtain s where sg: "sanitizeGit s = Ret (URL r, Host r, None)"
      by auto
    from sanitizeGit_success [OF sg] obtain q where
      u: "URL r = add_git_suffix (''git@'' @ Host r @ '':'' @ q)" and h: "CHR '':'' \<notin> set (Host r)"
      by blast
    define q' where
      "q' = (if HasSuffix (''git@'' @ Host r @ '':'' @ q) ''.git'' then q else q @ ''.git'')"
    have u': "URL r = ''git@'' @ Host r @ '':'' @ q'"
      using u by (simp add: q'_def add_git_suffix_def)
    have "HasSuffix (URL r) ''.git''"
      using u add_git_suffix_suffix by simp
    moreover have "URL r \<noteq> []" "\<not> HasPrefix (URL r) ''https://''"
      using u' by (simp_all add: HasPrefix_def)
    ultimately show ?thesis
      using False h u' by blast
  qed
  from assms(1) have "parse_loop E c w [] = Ret ((git, None), c', w')"
    by (simp add: parse_def)
  from parse_loop_all [OF this, of ?P] one have "list_all ?P git"
    by simp
  with assms(2) show ?thesis
    by (simp add: list_all_iff)
qed

theorem parse_url_forms_witness:
  "observe (parse (platform ''linux'') (controller key_block) []) =
     Some ([key_repo], None, 5, [EvInit, EvPrepare key_repo]) \<and>
   key_repo \<in> set [key_repo] \<and> KeyPath key_repo \<noteq> [] \<and>
   HasSuffix (URL key_repo) ''.git'' \<and> \<not> HasPrefix (URL key_repo) ''https://'' \<and>
   (\<exists>q. URL key_repo = ''git@'' @ Host key_repo @ '':'' @ q)"
proof -
  from observe_Some [OF parse_key_block] obtain c' where
    p: "parse (platform ''linux'') (controller key_block) [] =
          Ret (([key_repo], None), c', [EvInit, EvPrepare key_repo])"
    by blast
  have k: "KeyPath key_repo \<noteq> []"
    by (simp add: key_repo_def)
  from parse_url_forms [OF p, of key_repo] k parse_key_block show ?thesis
    by auto
qed

section \<open>Errors of \<^verbatim>\<open>parse\<close>\<close>

text \<open>The error returns of the loop body, one by one.\<close>

lemma directive_unknown_label:
  "Val c \<notin> set labels \<Longrightarrow> directive E c repo = (Some (ArgErr_at c), repo, c)"
  by (simp add: directive_def labels_def)

lemma directive_missing_value:
  "Val c \<in> set labels \<Longrightarrow> NextArg c = (False, c1) \<Longrightarrow>
     directive E c repo = (Some (ArgErr_at c1), repo, c1)"
  by (auto simp: directive_def labels_def)

lemma directive_unknown_hook_type:
  "Val c = ''hook_type'' \<Longrightarrow> NextArg c = (True, c1) \<Longrightarrow> Val c1 \<notin> set (handlers E) \<Longrightarrow>
     directive E c repo = (Some (HookTypeErr (Val c1)), repo, c1)"
  by (simp add: directive_def)

lemma block_loop_error:
  "NextBlock c = (True, c1) \<Longrightarrow> directive E c1 repo = (Some e, r, c2) \<Longrightarrow>
     block_loop E c repo = (Some e, r, c2)"
  by (simp add: block_loop.simps [of E c])

lemma parse_one_error_sources:
  assumes ra: "RemainingArgs c = (args, c1)"
    and bl: "block_loop E c1 (positional E c1 args (new_repo c)) = (d, r, c2)"
  shows "d = Some e \<Longrightarrow> parse_one E c w = Ret (Some e, r, c2, w)"
    and "d = None \<Longrightarrow> URL r = [] \<Longrightarrow> parse_one E c w = Ret (Some (ArgErr_at c2), r, c2, w)"
    and "d = None \<Longrightarrow> URL r \<noteq> [] \<Longrightarrow> KeyPath r = [] \<Longrightarrow>
           sanitizeHTTP (URL r) = Ret (u, h, Some e) \<Longrightarrow>
           parse_one E c w = Ret (Some e, r\<lparr>URL := u, Host := h\<rparr>, c2, w)"
    and "d = None \<Longrightarrow> URL r \<noteq> [] \<Longrightarrow> KeyPath r \<noteq> [] \<Longrightarrow> GOOS E \<noteq> ''windows'' \<Longrightarrow>
           sanitizeGit (URL r) = Ret (u, h, Some e) \<Longrightarrow>
           parse_one E c w = Ret (Some e, r\<lparr>URL := u, Host := h\<rparr>, c2, w)"
    and "d = None \<Longrightarrow> URL r \<noteq> [] \<Longrightarrow> KeyPath r = [] \<Longrightarrow>
           sanitizeHTTP (URL r) = Ret (u, h, None) \<Longrightarrow> Init_result E w = Some e \<Longrightarrow>
           parse_one E c w = Ret (Some e, r\<lparr>URL := u, Host := h\<rparr>, c2, w @ [EvInit])"
    and "d = None \<Longrightarrow> URL r \<noteq> [] \<Longrightarrow> KeyPath r = [] \<Longrightarrow>
           sanitizeHTTP (URL r) = Ret (u, h, None) \<Longrightarrow> Init_result E w = None \<Longrightarrow>
           Prepare_result E (w @ [EvInit]) (r\<lparr>URL := u, Host := h\<rparr>) = Some e \<Longrightarrow>
           parse_one E c w =
             Ret (Some e, r\<lparr>URL := u, Host := h\<rparr>, c2,
                  w @ [EvInit, EvPrepare (r\<lparr>URL := u, Host := h\<rparr>)])"
  using ra bl
  by (simp_all add: parse_one_def finish_repo_def Init_def Prepare_def)




section \<open>Private keys on Windows\<close>

text \<open>
  Where \<^verbatim>\<open>sanitizeGit\<close> returns, a directive with a key fails on Windows with the
  platform error, before \<^verbatim>\<open>Init\<close> and \<^verbatim>\<open>Prepare\<close>: the outside is left as it was.
\<close>

lemma parse_one_windows:
  assumes "RemainingArgs c = (args, c1)"
    and "block_loop E c1 (positional E c1 args (new_repo c)) = (None, r, c2)"
    and "URL r \<noteq> []" and "KeyPath r \<noteq> []" and "GOOS E = ''windows''"
  shows "(sanitizeGit (URL r) = Panic \<longrightarrow> parse_one E c w = Panic) \<and>
         (\<forall>u h err. sanitizeGit (URL r) = Ret (u, h, err) \<longrightarrow>
            parse_one E c w = Ret (Some WindowsUnsupported, r\<lparr>URL := u, Host := h\<rparr>, c2, w))"
  using assms by (simp add: parse_one_def)

lemma parse_key_block_no_path:
  "observe (parse (platform ''windows'') (controller key_block_no_path) []) = None"
  by code_simp

text \<open>
  C9. With a key on Windows \<^verbatim>\<open>parse\<close> is to fail with the platform error. Line 178 calls
  \<^verbatim>\<open>sanitizeGit\<close> before line 180 looks at the platform, so for
  \<^verbatim>\<open>git https://github.com { key /etc/keys/id_rsa }\<close> the out-of-range slice of
  \<^verbatim>\<open>sanitizeGit\<close> panics first.
\<close>

theorem parse_windows_key_panics:
  "GOOS (platform ''windows'') = ''windows'' \<and>
   parse (platform ''windows'') (controller key_block_no_path) [] = Panic"
  using observe_None [OF parse_key_block_no_path] by (simp add: platform_def)

theorem parse_windows_key_witness:
  "parse (platform ''windows'') (controller key_block_no_path) [] \<noteq>
     Ret (([], Some WindowsUnsupported), controller key_block_no_path, [])"
  using parse_windows_key_panics by simp

section \<open>Defaults and the \<^verbatim>\<open>interval\<close> sub-directive\<close>

lemma foldl_digits_nonneg:
  "list_all isDigit ds \<Longrightarrow> 0 \<le> a \<Longrightarrow>
     0 \<le> foldl (\<lambda>a c. 10 * a + (int (of_char c) - 48)) a ds"
proof (induction ds arbitrary: a)
  case Nil
  then show ?case by simp
next
  case (Cons d ds)
  from Cons.prems have "48 \<le> (of_char d :: nat)"
    by (simp add: isDigit_def Let_def)
  with Cons.prems have "0 \<le> 10 * a + (int (of_char d) - 48)"
    by simp
  with Cons.prems Cons.IH show ?case
    by simp
qed

lemma digits_value_nonneg: "list_all isDigit ds \<Longrightarrow> 0 \<le> digits_value ds"
  unfolding digits_value_def by (rule foldl_digits_nonneg) simp_all

lemma plus_minus_no_digit: "\<not> isDigit CHR ''+''" "\<not> isDigit CHR ''-''"
  by (simp_all add: isDigit_def)

lemma Atoi_not_literal: "\<not> decimal_literal v \<Longrightarrow> Atoi v = (0, True)"
  by (cases v) (auto simp: decimal_literal_def Atoi_def)

lemma Atoi_nonpositive:
  assumes "decimal_literal v" and "literal_value v \<le> 0"
  shows "fst (Atoi v) \<le> 0"
proof (cases v)
  case Nil
  with assms show ?thesis by (simp add: decimal_literal_def)
next
  case (Cons c r)
  show ?thesis
  proof (cases "c = CHR ''-''")
    case True
    with Cons assms have "list_all isDigit r"
      by (simp add: decimal_literal_def)
    then have "0 \<le> digits_value r"
      by (rule digits_value_nonneg)
    with Cons True show ?thesis
      by (simp add: Atoi_def Let_def)
  next
    case False
    show ?thesis
    proof (cases "c = CHR ''+''")
      case True
      with Cons assms have d: "r \<noteq> []" "list_all isDigit r" "digits_value r \<le> 0"
        by (simp_all add: decimal_literal_def literal_value_def)
      with digits_value_nonneg [of r] have "digits_value r = 0"
        by simp
      with Cons True d show ?thesis
        by (simp add: Atoi_def Let_def)
    next
      case plain: False
      with Cons assms False have d: "list_all isDigit v" "digits_value v \<le> 0"
        by (simp_all add: decimal_literal_def literal_value_def)
      with digits_value_nonneg [of v] have "digits_value v = 0"
        by simp
      moreover from Cons False plain have "Atoi v =
          (let n = digits_value v in
           if 2 ^ 63 \<le> n then (2 ^ 63 - 1, True) else (n, False))"
        using d(1) by (simp add: Atoi_def Let_def)
      ultimately show ?thesis
        by (simp add: Let_def)
    qed
  qed
qed

lemma directive_keeps_Interval:
  assumes "Val c \<noteq> ''interval''" and "directive E c r = (e, r', c')"
  shows "Interval r' = Interval r"
  using assms
  by (cases "NextArg c"; cases "RemainingArgs (snd (NextArg c))"; cases "NextArg (snd (NextArg c))")
     (auto simp: directive_def Let_def split: if_splits bool.splits)

lemma directive_keeps_Branch:
  assumes "Val c \<noteq> ''branch''" and "directive E c r = (e, r', c')"
  shows "Branch r' = Branch r"
  using assms
  by (cases "NextArg c"; cases "RemainingArgs (snd (NextArg c))"; cases "NextArg (snd (NextArg c))")
     (auto simp: directive_def Let_def split: if_splits bool.splits)

lemma directive_interval_ignored:
  assumes "Val d = ''interval''" and "NextArg d = (True, d1)"
    and "\<not> decimal_literal (Val d1) \<or> literal_value (Val d1) \<le> 0"
  shows "directive E d repo0 = (None, repo0, d1)"
proof -
  have "fst (Atoi (Val d1)) \<le> 0"
  proof (cases "decimal_literal (Val d1)")
    case True
    with assms(3) show ?thesis by (auto intro: Atoi_nonpositive)
  next
    case False
    then show ?thesis by (simp add: Atoi_not_literal)
  qed
  with assms(1,2) show ?thesis
    by (simp add: directive_def Let_def)
qed

lemma interval_line_dispenser:
  "Val (interval_line v) = ''interval''"
  "NextArg (interval_line v) = (True, (interval_line v)\<lparr>cursor := 1\<rparr>)"
  "Val ((interval_line v)\<lparr>cursor := 1\<rparr>) = v"
  by (simp_all add: interval_line_def controller_def tok_def Val_def NextArg_def)

lemma literal_examples:
  "decimal_literal ''-5'' \<and> literal_value ''-5'' = - 5"
  "decimal_literal ''0'' \<and> literal_value ''0'' = 0"
  "\<not> decimal_literal ''soon''"
  by code_simp+

lemma interval_ignored_examples:
  "directive E (interval_line ''-5'') repo0 = (None, repo0, (interval_line ''-5'')\<lparr>cursor := 1\<rparr>)"
  "directive E (interval_line ''0'') repo0 = (None, repo0, (interval_line ''0'')\<lparr>cursor := 1\<rparr>)"
  "directive E (interval_line ''soon'') repo0 =
     (None, repo0, (interval_line ''soon'')\<lparr>cursor := 1\<rparr>)"
  using literal_examples
  by (auto intro!: directive_interval_ignored simp: interval_line_dispenser)

text \<open>
  A block keeps the default of every field whose sub-directive it does not run, whatever
  the other blocks of the configuration do and whatever words occur as arguments.
\<close>

lemma block_loop_unlabelled:
  assumes dir: "\<And>c r e r' c'. Val c \<noteq> l \<Longrightarrow> directive E c r = (e, r', c') \<Longrightarrow> f r' = f r"
  shows "l \<notin> set (block_labels E c repo) \<Longrightarrow> block_loop E c repo = (d, r, c') \<Longrightarrow>
           f r = f repo"
proof (induction "nat (int (length (tokens c)) - cursor c)" arbitrary: c repo rule: less_induct)
  case less
  obtain b c1 where nb: "NextBlock c = (b, c1)"
    by (cases "NextBlock c")
  show ?case
  proof (cases b)
    case False
    with nb less.prems show ?thesis
      by (simp add: block_loop.simps [of E c])
  next
    case True
    obtain e r1 c2 where dr: "directive E c1 repo = (e, r1, c2)"
      by (cases "directive E c1 repo")
    from nb True less.prems(1) have "Val c1 \<noteq> l"
      by (auto simp: block_labels.simps [of E c])
    from dir [OF this dr] have k: "f r1 = f repo" .
    show ?thesis
    proof (cases e)
      case (Some err)
      with nb True dr less.prems k show ?thesis
        by (simp add: block_loop.simps [of E c])
    next
      case None
      with nb True dr less.prems have rec: "block_loop E c2 r1 = (d, r, c')"
        and lab: "l \<notin> set (block_labels E c2 r1)"
        by (simp_all add: block_loop.simps [of E c] block_labels.simps [of E c])
      from dr None have dr': "directive E c1 repo = (None, r1, c2)"
        by simp
      from block_loop_decreases [OF nb dr'] have dec:
        "nat (int (length (tokens c2)) - cursor c2) < nat (int (length (tokens c)) - cursor c)" .
      from less.hyps [OF dec lab rec] k show ?thesis
        by simp
    qed
  qed
qed

lemma parse_one_defaults:
  assumes ra: "RemainingArgs c = (args, c1)"
    and po: "parse_one E c w = Ret (None, repo, c', w')"
  shows "(''interval'' \<notin> set (block_labels E c1 (positional E c1 args (new_repo c))) \<longrightarrow>
            Interval repo = Hour) \<and>
         (''branch'' \<notin> set (block_labels E c1 (positional E c1 args (new_repo c))) \<longrightarrow>
            Branch repo = ''master'')"
proof -
  let ?r1 = "positional E c1 args (new_repo c)"
  obtain d r2 c2 where bl: "block_loop E c1 ?r1 = (d, r2, c2)"
    by (cases "block_loop E c1 ?r1")
  from po ra bl obtain u h where repo: "repo = r2\<lparr>URL := u, Host := h\<rparr>"
    by (auto simp: parse_one_def split: option.splits if_splits go.splits
        dest!: finish_repo_None)
  have start: "Interval ?r1 = Hour" "Branch ?r1 = ''master''"
    by (simp_all add: positional_def new_repo_def DefaultInterval_def)
  have "Interval r2 = Interval ?r1"
    if "''interval'' \<notin> set (block_labels E c1 ?r1)"
    using that bl by (rule block_loop_unlabelled [of "''interval''" E Interval, rotated])
      (rule directive_keeps_Interval)
  moreover have "Branch r2 = Branch ?r1"
    if "''branch'' \<notin> set (block_labels E c1 ?r1)"
    using that bl by (rule block_loop_unlabelled [of "''branch''" E Branch, rotated])
      (rule directive_keeps_Branch)
  ultimately show ?thesis
    using repo start by simp
qed

text \<open>
  C8. A value of \<^verbatim>\<open>interval\<close> that cannot be parsed as an integer is to leave the
  interval as it was. \<^verbatim>\<open>99999999999999999999\<close> does not fit an \<^verbatim>\<open>int\<close>:
  \<^verbatim>\<open>strconv.Atoi\<close> returns the largest \<^verbatim>\<open>int\<close> together with a range error, line 123
  drops the error, the test \<^verbatim>\<open>t > 0\<close> passes, and the multiplication on line 125 wraps
  around: the descriptor gets an interval of minus one second instead of one hour.
\<close>

theorem interval_out_of_range:
  "Atoi ''99999999999999999999'' = (2 ^ 63 - 1, True) \<and>
   wrap64 ((2 ^ 63 - 1) * Second) = - Second \<and>
   observe (parse (platform ''linux'') (controller huge_interval_block) []) =
     Some ([huge_interval_repo], None, 5, [EvInit, EvPrepare huge_interval_repo]) \<and>
   Interval huge_interval_repo = - Second \<and> Interval huge_interval_repo \<noteq> Hour"
  by code_simp

theorem interval_out_of_range_witness:
  "observe (parse (platform ''linux'') (controller huge_interval_block) []) \<noteq>
     Some ([huge_interval_repo\<lparr>Interval := Hour\<rparr>], None, 5,
           [EvInit, EvPrepare (huge_interval_repo\<lparr>Interval := Hour\<rparr>)])"
  using interval_out_of_range
  by (simp add: huge_interval_repo_def Hour_def Second_def)

section \<open>Startup actions\<close>

lemma Setup_loop_result:
  "Setup_loop E git hookRepos startupFuncs =
     (hookRepos @ filter (\<lambda>r. Url (Hook r) \<noteq> []) git,
      startupFuncs @
        map (\<lambda>repo. if Url (Hook repo) \<noteq> [] then (\<lambda>w. Pull E repo w)
                     else (\<lambda>w. let w1 = Start E repo w in Pull E repo w1)) git)"
  by (induction git arbitrary: hookRepos startupFuncs) simp_all

lemma Setup_returns:
  assumes "Setup E c w = Ret ((mw, None), c', w')"
  shows "\<exists>git c1. parse E c w = Ret ((git, None), c1, w') \<and> frame c c1 \<and>
           c' = snd (OncePerServerBlock
                  (\<lambda>c. (None, c\<lparr>Startup := Startup c @ snd (Setup_loop E git [] [])\<rparr>)) c1) \<and>
           mw = (if fst (Setup_loop E git [] []) = [] then None
                 else Some (WebHookMiddleware (fst (Setup_loop E git [] []))))"
proof -
  from assms obtain git c1 where p: "parse E c w = Ret ((git, None), c1, w')"
    by (auto simp: Setup_def Let_def split: go.splits option.splits prod.splits if_splits)
  then have "frame c c1"
    by (auto simp: parse_def dest: parse_loop_frame)
  with assms p show ?thesis
    by (auto simp: Setup_def Let_def split: prod.splits if_splits)
qed

text \<open>
  C3. For a first evaluation of the block that succeeds, \<^verbatim>\<open>Setup\<close> adds one startup action
  per parsed descriptor, in order. For a descriptor with a hook address the action is one
  \<^verbatim>\<open>Pull\<close> and nothing else (no \<^verbatim>\<open>Start\<close>), and the descriptor is among the repositories
  of the webhook; otherwise the action is \<^verbatim>\<open>Start\<close> followed by one \<^verbatim>\<open>Pull\<close>, whose error
  it returns, and the descriptor is not given to the webhook.
\<close>

theorem Setup_startup_actions:
  assumes "Setup E c w = Ret ((mw, None), c', w')" and "\<not> once_done c"
  shows "\<exists>git c1 fs hookRepos.
           parse E c w = Ret ((git, None), c1, w') \<and>
           Startup c' = Startup c @ fs \<and> length fs = length git \<and>
           hookRepos = filter (\<lambda>r. Url (Hook r) \<noteq> []) git \<and>
           mw = (if hookRepos = [] then None else Some (WebHookMiddleware hookRepos)) \<and>
           (\<forall>i < length git. \<forall>w0.
              (Url (Hook (git ! i)) \<noteq> [] \<longrightarrow>
                 (fs ! i) w0 = (Pull_result E w0 (git ! i), w0 @ [EvPull (git ! i)])) \<and>
              (Url (Hook (git ! i)) = [] \<longrightarrow>
                 (fs ! i) w0 =
                   (Pull_result E (w0 @ [EvStart (git ! i)]) (git ! i),
                    w0 @ [EvStart (git ! i), EvPull (git ! i)])))"
proof -
  from Setup_returns [OF assms(1)] obtain git c1 where
    p: "parse E c w = Ret ((git, None), c1, w')" and fr: "frame c c1"
    and c': "c' = snd (OncePerServerBlock
                  (\<lambda>c. (None, c\<lparr>Startup := Startup c @ snd (Setup_loop E git [] [])\<rparr>)) c1)"
    and mw: "mw = (if fst (Setup_loop E git [] []) = [] then None
                 else Some (WebHookMiddleware (fst (Setup_loop E git [] []))))"
    by blast
  define fs where
    "fs = map (\<lambda>repo. if Url (Hook repo) \<noteq> [] then (\<lambda>w. Pull E repo w)
                     else (\<lambda>w. let w1 = Start E repo w in Pull E repo w1)) git"
  have sl: "Setup_loop E git [] [] = (filter (\<lambda>r. Url (Hook r) \<noteq> []) git, fs)"
    by (simp add: Setup_loop_result fs_def)
  from fr assms(2) have "\<not> once_done c1" "Startup c1 = Startup c"
    by (simp_all add: frame_def)
  with c' sl have st: "Startup c' = Startup c @ fs"
    by (simp add: OncePerServerBlock_def)
  have acts: "\<forall>i < length git. \<forall>w0.
              (Url (Hook (git ! i)) \<noteq> [] \<longrightarrow>
                 (fs ! i) w0 = (Pull_result E w0 (git ! i), w0 @ [EvPull (git ! i)])) \<and>
              (Url (Hook (git ! i)) = [] \<longrightarrow>
                 (fs ! i) w0 =
                   (Pull_result E (w0 @ [EvStart (git ! i)]) (git ! i),
                    w0 @ [EvStart (git ! i), EvPull (git ! i)]))"
    by (simp add: fs_def Pull_def Start_def)
  have "length fs = length git"
    by (simp add: fs_def)
  with p st mw sl acts show ?thesis
    by auto
qed

lemma parse_two_blocks:
  "observe (parse (platform ''linux'') (controller two_blocks) []) =
     Some ([poll_repo, hook_repo], None, 10,
           [EvInit, EvPrepare poll_repo, EvInit, EvPrepare hook_repo])"
  by code_simp

lemma Setup_two_blocks:
  "(case Setup (platform ''linux'') (controller two_blocks) [] of
      Panic \<Rightarrow> None
    | Ret ((mw, err), c', w') \<Rightarrow> Some (mw, err, w')) =
   Some (Some (WebHookMiddleware [hook_repo]), None,
         [EvInit, EvPrepare poll_repo, EvInit, EvPrepare hook_repo])"
  by code_simp

theorem Setup_startup_actions_witness:
  "\<not> once_done (controller two_blocks) \<and>
   (case Setup (platform ''linux'') (controller two_blocks) [] of
      Panic \<Rightarrow> False
    | Ret ((mw, err), c', w') \<Rightarrow>
        err = None \<and> mw = Some (WebHookMiddleware [hook_repo]) \<and>
        length (Startup c') = 2 \<and>
        (Startup c' ! 0) [] = (None, [EvStart poll_repo, EvPull poll_repo]) \<and>
        (Startup c' ! 1) [] = (None, [EvPull hook_repo]))"
proof -
  let ?E = "platform ''linux''" and ?c = "controller two_blocks"
  have nd: "\<not> once_done ?c"
    by (simp add: controller_def)
  from Setup_two_blocks obtain c' w' where
    S: "Setup ?E ?c [] = Ret ((Some (WebHookMiddleware [hook_repo]), None), c', w')"
    by (auto split: go.splits)
  from Setup_startup_actions [OF S nd] obtain git c1 fs where
    p: "parse ?E ?c [] = Ret ((git, None), c1, w')"
    and st: "Startup c' = Startup ?c @ fs" "length fs = length git"
    and acts: "\<forall>i < length git. \<forall>w0.
              (Url (Hook (git ! i)) \<noteq> [] \<longrightarrow>
                 (fs ! i) w0 = (Pull_result ?E w0 (git ! i), w0 @ [EvPull (git ! i)])) \<and>
              (Url (Hook (git ! i)) = [] \<longrightarrow>
                 (fs ! i) w0 =
                   (Pull_result ?E (w0 @ [EvStart (git ! i)]) (git ! i),
                    w0 @ [EvStart (git ! i), EvPull (git ! i)]))"
    by blast
  from observe_Some [OF parse_two_blocks] p have git: "git = [poll_repo, hook_repo]"
    by auto
  from st git have len: "length (Startup c') = 2" and fs: "Startup c' = fs"
    by (simp_all add: controller_def)
  from acts [rule_format, of 0 "[]"] git
  have a0: "(fs ! 0) [] = (None, [EvStart poll_repo, EvPull poll_repo])"
    by (simp add: poll_repo_def platform_def)
  from acts [rule_format, of 1 "[]"] git
  have a1: "(fs ! 1) [] = (None, [EvPull hook_repo])"
    by (simp add: hook_repo_def platform_def)
  from S nd len fs a0 a1 show ?thesis
    by simp
qed

section \<open>One registration for a shared block\<close>

lemma Setup_guard:
  assumes "Setup E c w = Ret ((mw, None), c', w')"
  shows "once_done c' \<and> tokens c' = tokens c \<and> (once_done c \<longrightarrow> Startup c' = Startup c)"
proof -
  from Setup_returns [OF assms] obtain git c1 where
    fr: "frame c c1"
    and c': "c' = snd (OncePerServerBlock
                  (\<lambda>c. (None, c\<lparr>Startup := Startup c @ snd (Setup_loop E git [] [])\<rparr>)) c1)"
    by blast
  then show ?thesis
    by (auto simp: OncePerServerBlock_def frame_def)
qed

lemma eval_contexts_done:
  "once_done c \<Longrightarrow> eval_contexts E n c w = Ret (None, c', w') \<Longrightarrow> Startup c' = Startup c"
proof (induction n arbitrary: c w)
  case 0
  then show ?case by simp
next
  case (Suc n)
  from Suc.prems(2) obtain mw c1 w1 where
    S: "Setup E (rewind c) w = Ret ((mw, None), c1, w1)"
    and rest: "eval_contexts E n c1 w1 = Ret (None, c', w')"
    by (auto split: go.splits option.splits)
  from Setup_guard [OF S] Suc.prems(1) have "once_done c1" "Startup c1 = Startup c"
    by (simp_all add: rewind_def)
  with Suc.IH [OF _ rest] show ?case
    by simp
qed

text \<open>
  C2. When a block whose guard has not fired is evaluated for one or more contexts and
  every evaluation succeeds, the startup list ends as the first evaluation left it: it
  has grown by one action for each descriptor parsed, whatever the number of contexts.
\<close>

theorem shared_block_registers_once:
  assumes "eval_contexts E (Suc n) c w = Ret (None, c', w')" and "\<not> once_done c"
  shows "\<exists>mw c1 w1 git c0.
           Setup E (rewind c) w = Ret ((mw, None), c1, w1) \<and>
           parse E (rewind c) w = Ret ((git, None), c0, w1) \<and>
           Startup c' = Startup c1 \<and>
           length (Startup c') = length (Startup c) + length git"
proof -
  from assms(1) obtain mw c1 w1 where
    S: "Setup E (rewind c) w = Ret ((mw, None), c1, w1)"
    and rest: "eval_contexts E n c1 w1 = Ret (None, c', w')"
    by (auto split: go.splits option.splits)
  from Setup_guard [OF S] have "once_done c1"
    by simp
  from eval_contexts_done [OF this rest] have same: "Startup c' = Startup c1" .
  from assms(2) have "\<not> once_done (rewind c)"
    by (simp add: rewind_def)
  from Setup_startup_actions [OF S this] obtain git c0 fs where
    "parse E (rewind c) w = Ret ((git, None), c0, w1)"
    "Startup c1 = Startup (rewind c) @ fs" "length fs = length git"
    by blast
  with S same show ?thesis
    by (auto simp: rewind_def)
qed

lemma eval_two_blocks:
  "(case eval_contexts (platform ''linux'') 3 (controller two_blocks) [] of
      Panic \<Rightarrow> None
    | Ret (err, c', w') \<Rightarrow> Some (err, length (Startup c'), length w')) = Some (None, 2, 12)"
  by code_simp

theorem shared_block_registers_once_witness:
  "\<not> once_done (controller two_blocks) \<and>
   (case eval_contexts (platform ''linux'') (Suc 2) (controller two_blocks) [] of
      Panic \<Rightarrow> False
    | Ret (err, c', w') \<Rightarrow> err = None \<and> length (Startup c') = 2)"
proof -
  let ?E = "platform ''linux''" and ?c = "controller two_blocks"
  have nd: "\<not> once_done ?c" and rw: "rewind ?c = ?c" and st: "Startup ?c = []"
    by (simp_all add: controller_def rewind_def)
  have "eval_contexts ?E (Suc 2) ?c [] = eval_contexts ?E 3 ?c []"
    by (simp add: eval_nat_numeral)
  with eval_two_blocks obtain c' w' where
    ev: "eval_contexts ?E (Suc 2) ?c [] = Ret (None, c', w')"
    by (auto split: go.splits)
  from shared_block_registers_once [OF ev nd] obtain git c0 w1 where
    p: "parse ?E ?c [] = Ret ((git, None), c0, w1)"
    and len: "length (Startup c') = length (Startup ?c) + length git"
    unfolding rw by blast
  from observe_Some [OF parse_two_blocks] p have "git = [poll_repo, hook_repo]"
    by auto
  with len st ev nd show ?thesis
    by simp
qed

section \<open>Addresses that are read back as they were written\<close>











section \<open>Re-applying a normalizer: what holds\<close>




end
